theory Spec2Isabelle
  imports Complex_Main
begin

section \<open>The ripple controller \<open>useRipple\<close>\<close>

text \<open>
  A shallow embedding of the hook \<open>useRipple\<close>: its refs and its two React state cells are
  the fields of one record, every handler is a function from the record to the record, and
  the two suspended computations (the touch delay of \<open>onPointerDown\<close>, the minimum-press
  wait of \<open>endPressAnimation\<close>) are entries of a list of pending timers whose
  continuations run when the timer fires.

  The numbers of the ripple geometry are IEEE 754 binary64 values, and the arithmetic of
  \<open>determineRippleSize\<close> rounds to nearest after every operation, as JavaScript does.
  Coordinates and times are real numbers: their rounding is not modelled.
\<close>

subsection \<open>JavaScript numbers\<close>

text \<open>
  A JavaScript number is a finite binary64 value, an infinity or NaN. Negative zero is
  not a value of its own here: a side of a box is never \<open>-0\<close>, and the one place of the
  geometry where the sign of a zero changes a result, the divisor of the scale, is treated
  in \<open>determineRippleSize\<close>.
\<close>

datatype number = Num real | PosInfinity | NegInfinity | NaN

definition isFinite :: "number \<Rightarrow> bool" where
  "isFinite n = (case n of Num _ \<Rightarrow> True | _ \<Rightarrow> False)"

text \<open>Rounding a real to the nearest integer, a tie going to the even one.\<close>

definition roundTiesToEven :: "real \<Rightarrow> int" where
  "roundTiesToEven y =
     (let n = \<lfloor>y\<rfloor>; r = y - of_int n
      in if r < 1 / 2 then n else if 1 / 2 < r then n + 1 else if even n then n else n + 1)"

text \<open>
  Rounding a real to binary64 precision: the result is a multiple of the unit in the last
  place of \<open>x\<close>, which is \<open>2\<close> to the exponent of \<open>x\<close> less 52, and
  \<open>2 powi - 1074\<close> in the subnormal range. The exponent is not bounded above here;
  \<open>binary64\<close> adds the overflow to infinity.
\<close>

definition round64 :: "real \<Rightarrow> real" where
  "round64 x =
     (if x = 0 then 0
      else let q = 2 powi (max \<lfloor>log 2 \<bar>x\<bar>\<rfloor> (- 1022) - 52)
           in of_int (roundTiesToEven (x / q)) * q)"

definition binary64 :: "real \<Rightarrow> number" where
  "binary64 x =
     (if \<bar>round64 x\<bar> < 2 ^ 1024 then Num (round64 x)
      else if 0 < x then PosInfinity else NegInfinity)"

text \<open>The finite binary64 values, and the type of them.\<close>

definition is_binary64 :: "real \<Rightarrow> bool" where
  "is_binary64 x \<longleftrightarrow> round64 x = x \<and> \<bar>x\<bar> < 2 ^ 1024"

typedef double = "{x. is_binary64 x}"
  morphisms val Abs_double
  by (rule exI [of _ 0]) (simp add: is_binary64_def round64_def)

text \<open>The double with the given value (zero when there is none).\<close>

definition dbl :: "real \<Rightarrow> double" where
  "dbl x = Abs_double (if is_binary64 x then x else 0)"

text \<open>
  The operators \<open>+\<close>, \<open>*\<close>, \<open>/\<close>, \<open>Math.sqrt\<close> and \<open>Math.max\<close>: the exact result
  rounded, and the rules of IEEE 754 for infinities and NaN.
\<close>

fun js_add :: "number \<Rightarrow> number \<Rightarrow> number" where
  "js_add (Num x) (Num y) = binary64 (x + y)"
| "js_add NaN _ = NaN"
| "js_add _ NaN = NaN"
| "js_add PosInfinity NegInfinity = NaN"
| "js_add NegInfinity PosInfinity = NaN"
| "js_add PosInfinity _ = PosInfinity"
| "js_add _ PosInfinity = PosInfinity"
| "js_add NegInfinity _ = NegInfinity"
| "js_add _ NegInfinity = NegInfinity"

fun js_mul :: "number \<Rightarrow> number \<Rightarrow> number" where
  "js_mul (Num x) (Num y) = binary64 (x * y)"
| "js_mul NaN _ = NaN"
| "js_mul _ NaN = NaN"
| "js_mul PosInfinity (Num y) =
     (if y = 0 then NaN else if 0 < y then PosInfinity else NegInfinity)"
| "js_mul (Num x) PosInfinity =
     (if x = 0 then NaN else if 0 < x then PosInfinity else NegInfinity)"
| "js_mul NegInfinity (Num y) =
     (if y = 0 then NaN else if 0 < y then NegInfinity else PosInfinity)"
| "js_mul (Num x) NegInfinity =
     (if x = 0 then NaN else if 0 < x then NegInfinity else PosInfinity)"
| "js_mul PosInfinity PosInfinity = PosInfinity"
| "js_mul PosInfinity NegInfinity = NegInfinity"
| "js_mul NegInfinity PosInfinity = NegInfinity"
| "js_mul NegInfinity NegInfinity = PosInfinity"

fun js_divide :: "number \<Rightarrow> number \<Rightarrow> number" where
  "js_divide (Num x) (Num y) =
     (if y \<noteq> 0 then binary64 (x / y)
      else if 0 < x then PosInfinity
      else if x < 0 then NegInfinity
      else NaN)"
| "js_divide NaN _ = NaN"
| "js_divide _ NaN = NaN"
| "js_divide (Num x) PosInfinity = Num 0"
| "js_divide (Num x) NegInfinity = Num 0"
| "js_divide PosInfinity (Num y) = (if 0 \<le> y then PosInfinity else NegInfinity)"
| "js_divide NegInfinity (Num y) = (if 0 \<le> y then NegInfinity else PosInfinity)"
| "js_divide PosInfinity PosInfinity = NaN"
| "js_divide PosInfinity NegInfinity = NaN"
| "js_divide NegInfinity PosInfinity = NaN"
| "js_divide NegInfinity NegInfinity = NaN"

text \<open>The quotient \<open>a / -0\<close>.\<close>

fun js_divide_negzero :: "number \<Rightarrow> number" where
  "js_divide_negzero (Num x) =
     (if 0 < x then NegInfinity else if x < 0 then PosInfinity else NaN)"
| "js_divide_negzero PosInfinity = NegInfinity"
| "js_divide_negzero NegInfinity = PosInfinity"
| "js_divide_negzero NaN = NaN"

fun js_sqrt :: "number \<Rightarrow> number" where
  "js_sqrt (Num x) = (if x < 0 then NaN else binary64 (sqrt x))"
| "js_sqrt PosInfinity = PosInfinity"
| "js_sqrt _ = NaN"

fun js_max :: "number \<Rightarrow> number \<Rightarrow> number" where
  "js_max (Num x) (Num y) = Num (max x y)"
| "js_max NaN _ = NaN"
| "js_max _ NaN = NaN"
| "js_max PosInfinity _ = PosInfinity"
| "js_max _ PosInfinity = PosInfinity"
| "js_max NegInfinity b = b"
| "js_max a NegInfinity = a"

subsection \<open>Constants\<close>

text \<open>
  The literals \<open>0.2\<close> and \<open>0.35\<close> denote the doubles nearest to them; the other
  constants are integers.
\<close>

definition PRESS_GROW_MS :: real where "PRESS_GROW_MS = 450"
definition MINIMUM_PRESS_MS :: real where "MINIMUM_PRESS_MS = 225"
definition INITIAL_ORIGIN_SCALE :: real where "INITIAL_ORIGIN_SCALE = round64 0.2"
definition PADDING :: real where "PADDING = 10"
definition SOFT_EDGE_MINIMUM_SIZE :: real where "SOFT_EDGE_MINIMUM_SIZE = 75"
definition SOFT_EDGE_CONTAINER_RATIO :: real where
  "SOFT_EDGE_CONTAINER_RATIO = round64 0.35"
definition TOUCH_DELAY_MS :: real where "TOUCH_DELAY_MS = 150"

datatype StateType = INACTIVE | TOUCH_DELAY | HOLDING | WAITING_FOR_CLICK

subsection \<open>Events, the surface, animations\<close>

text \<open>The fields of a pointer event that the hook reads.\<close>

record PointerEvent =
  type :: string
  pointerId :: int
  pointerType :: string
  isPrimary :: bool
  buttons :: int
  pageX :: real
  pageY :: real

text \<open>
  The surface element, as far as the hook reads it: the rectangle that
  \<open>getBoundingClientRect\<close> returns.
\<close>

record HTMLElement =
  height :: double
  width :: double
  left :: double
  top_px :: double

text \<open>
  An \<open>Animation\<close> object made by \<open>surface.animate\<close>: the keyframe values the hook
  passed, the time of the call, and whether \<open>cancel\<close> was called on it. A handle is the
  index of the object in the list of all animations made so far, so two handles are equal
  exactly when they are the same object.
\<close>

record Animation =
  startTime :: real
  cancelled :: bool
  keyframeSize :: "int option"
  translateStart :: "real \<times> real"
  translateEnd :: "real \<times> real"
  keyframeScale :: "number option"

text \<open>A computation suspended at an \<open>await\<close>, with the variables it closes over.\<close>

datatype Continuation =
    TouchDelayResume PointerEvent
  | MinimumPressResume "nat option"

record Ripple =
  disabled :: bool
  isBrowser :: bool
  hovered :: bool
  pressed :: bool
  stateRef :: StateType
  rippleStartEventRef :: "PointerEvent option"
  surfaceRef :: "HTMLElement option"
  growAnimationRef :: "nat option"
  initialSizeRef :: int
  rippleSizeRef :: "int option"
  rippleScaleRef :: "number option"
  animations :: "Animation list"
  timers :: "(real \<times> Continuation) list"
  now :: real
  scrollX :: real
  scrollY :: real

text \<open>
  The state after the first render: \<open>useState(false)\<close> twice and the initial values of the
  refs (the empty strings of \<open>rippleSizeRef\<close> and \<open>rippleScaleRef\<close> are \<open>None\<close>). The
  arguments are the hook's parameter and the module constant \<open>isBrowser\<close>.
\<close>

definition useRipple :: "bool \<Rightarrow> bool \<Rightarrow> Ripple" where
  "useRipple d browser =
     \<lparr> disabled = d, isBrowser = browser, hovered = False, pressed = False,
       stateRef = INACTIVE, rippleStartEventRef = None, surfaceRef = None,
       growAnimationRef = None, initialSizeRef = 0, rippleSizeRef = None,
       rippleScaleRef = None, animations = [], timers = [], now = 0,
       scrollX = 0, scrollY = 0 \<rparr>"

subsection \<open>The platform\<close>

text \<open>
  The Web Animations engine and the timer queue are not code of the repository; the hook
  only calls them. An animation's \<open>currentTime\<close> is the time since \<open>animate\<close> was called,
  held at the end of the effect (\<open>fill: 'forwards'\<close>), and is \<open>null\<close> once the animation
  is cancelled. A timer never fires before its delay has passed.
\<close>

definition currentTime :: "Animation \<Rightarrow> real \<Rightarrow> real option" where
  "currentTime a t =
     (if cancelled a then None else Some (min (t - startTime a) PRESS_GROW_MS))"

definition animation_currentTime :: "nat option \<Rightarrow> Ripple \<Rightarrow> real option" where
  "animation_currentTime r s =
     (case r of
        None \<Rightarrow> None
      | Some h \<Rightarrow> if h < length (animations s) then currentTime (animations s ! h) (now s)
                  else None)"

definition cancel :: "nat option \<Rightarrow> Ripple \<Rightarrow> Ripple" where
  "cancel r s =
     (case r of
        None \<Rightarrow> s
      | Some h \<Rightarrow> s\<lparr>animations := (animations s)[h := (animations s ! h)\<lparr>cancelled := True\<rparr>]\<rparr>)"

definition setTimeout :: "real \<Rightarrow> Continuation \<Rightarrow> Ripple \<Rightarrow> Ripple" where
  "setTimeout delay k s = s\<lparr>timers := timers s @ [(now s + delay, k)]\<rparr>"

subsection \<open>The hook's functions\<close>

definition isTouch :: "PointerEvent \<Rightarrow> bool" where
  "isTouch event = (pointerType event = ''touch'')"

definition shouldReactToEvent :: "PointerEvent \<Rightarrow> Ripple \<Rightarrow> bool" where
  "shouldReactToEvent event s =
     (if disabled s \<or> \<not> isPrimary event then False
      else if (case rippleStartEventRef s of
                 None \<Rightarrow> False
               | Some origin \<Rightarrow> pointerId origin \<noteq> pointerId event) then False
      else if type event = ''pointerenter'' \<or> type event = ''pointerleave''
        then \<not> isTouch event
      else isTouch event \<or> buttons event = 1)"

text \<open>
  \<open>Math.floor(maxDim * INITIAL_ORIGIN_SCALE)\<close>: the product of a double and \<open>0.2\<close> is too
  small to overflow (lemma \<open>initial_size_finite\<close>), so the rounded product is a finite
  number and its floor an integer. When \<open>maxDim\<close> is negative and the product rounds to
  zero, the product and its floor are \<open>-0\<close>, and the scale is a quotient by \<open>-0\<close>.
  \<open>width ** 2\<close> is the rounded product of \<open>width\<close> with itself, and \<open>Math.sqrt\<close> the
  rounded square root, as the engines compute them.
\<close>

definition determineRippleSize :: "HTMLElement \<Rightarrow> Ripple \<Rightarrow> Ripple" where
  "determineRippleSize element s =
     (let maxDim = max (val (height element)) (val (width element));
          softEdgeSize = js_max (js_mul (Num SOFT_EDGE_CONTAINER_RATIO) (Num maxDim))
                           (Num SOFT_EDGE_MINIMUM_SIZE);
          initialSize = \<lfloor>round64 (maxDim * INITIAL_ORIGIN_SCALE)\<rfloor>;
          hypotenuse = js_sqrt (js_add
                         (js_mul (Num (val (width element))) (Num (val (width element))))
                         (js_mul (Num (val (height element))) (Num (val (height element)))));
          maxRadius = js_add hypotenuse (Num PADDING)
      in s\<lparr>initialSizeRef := initialSize,
           rippleScaleRef :=
             Some (if maxDim < 0 \<and> round64 (maxDim * INITIAL_ORIGIN_SCALE) = 0
                   then js_divide_negzero (js_add maxRadius softEdgeSize)
                   else js_divide (js_add maxRadius softEdgeSize) (Num (of_int initialSize))),
           rippleSizeRef := Some initialSize\<rparr>)"

text \<open>The initial size that \<open>determineRippleSize\<close> computes for a box.\<close>

abbreviation initialSize :: "HTMLElement \<Rightarrow> int" where
  "initialSize element \<equiv>
     \<lfloor>round64 (max (val (height element)) (val (width element)) * INITIAL_ORIGIN_SCALE)\<rfloor>"

definition getNormalizedPointerEventCoords ::
  "HTMLElement \<Rightarrow> PointerEvent \<Rightarrow> Ripple \<Rightarrow> real \<times> real" where
  "getNormalizedPointerEventCoords element event s =
     (if \<not> isBrowser s then (0, 0)
      else let documentX = scrollX s + val (left element);
               documentY = scrollY s + val (top_px element)
           in (pageX event - documentX, pageY event - documentY))"

definition getTranslationCoordinates ::
  "HTMLElement \<Rightarrow> PointerEvent option \<Rightarrow> Ripple \<Rightarrow> (real \<times> real) \<times> (real \<times> real)" where
  "getTranslationCoordinates element event s =
     (let endPoint = ((val (width element) - of_int (initialSizeRef s)) / 2,
                      (val (height element) - of_int (initialSizeRef s)) / 2);
          startPoint = (case event of
                          Some e \<Rightarrow> getNormalizedPointerEventCoords element e s
                        | None \<Rightarrow> (val (width element) / 2, val (height element) / 2));
          startPoint = (fst startPoint - of_int (initialSizeRef s) / 2,
                        snd startPoint - of_int (initialSizeRef s) / 2)
      in (startPoint, endPoint))"

text \<open>\<open>surface.animate(...)\<close>: a new animation object, whose handle is returned in the ref.\<close>

definition animate :: "(real \<times> real) \<Rightarrow> (real \<times> real) \<Rightarrow> Ripple \<Rightarrow> Ripple" where
  "animate translateStart' translateEnd' s =
     s\<lparr>growAnimationRef := Some (length (animations s)),
       animations := animations s @
         [\<lparr> startTime = now s, cancelled = False, keyframeSize = rippleSizeRef s,
            translateStart = translateStart', translateEnd = translateEnd',
            keyframeScale = rippleScaleRef s \<rparr>]\<rparr>"

definition startPressAnimation :: "PointerEvent option \<Rightarrow> Ripple \<Rightarrow> Ripple" where
  "startPressAnimation event s =
     (if \<not> isBrowser s then s
      else case surfaceRef s of
        None \<Rightarrow> s
      | Some surface \<Rightarrow>
          (let s1 = s\<lparr>pressed := True\<rparr>;
               s2 = cancel (growAnimationRef s1) s1;
               s3 = determineRippleSize surface s2;
               (startPoint, endPoint) = getTranslationCoordinates surface event s3
           in animate startPoint endPoint s3))"

text \<open>
  \<open>endPressAnimation\<close> up to its \<open>await\<close>. \<open>pressAnimationPlayState\<close> is \<open>Infinity\<close>
  unless \<open>currentTime\<close> is a number, and \<open>Infinity >= MINIMUM_PRESS_MS\<close> holds.
\<close>

definition endPressAnimation :: "Ripple \<Rightarrow> Ripple" where
  "endPressAnimation s =
     (let s1 = s\<lparr>rippleStartEventRef := None, stateRef := INACTIVE\<rparr>;
          animation = growAnimationRef s1
      in case animation_currentTime animation s1 of
           None \<Rightarrow> s1\<lparr>pressed := False\<rparr>
         | Some pressAnimationPlayState \<Rightarrow>
             if pressAnimationPlayState \<ge> MINIMUM_PRESS_MS then s1\<lparr>pressed := False\<rparr>
             else setTimeout (MINIMUM_PRESS_MS - pressAnimationPlayState)
                    (MinimumPressResume animation) s1)"

text \<open>The rest of \<open>endPressAnimation\<close>, after the wait; \<open>animation\<close> is the captured handle.\<close>

definition minimumPressResume :: "nat option \<Rightarrow> Ripple \<Rightarrow> Ripple" where
  "minimumPressResume animation s =
     (if growAnimationRef s \<noteq> animation then s else s\<lparr>pressed := False\<rparr>)"

definition onPointerEnter :: "PointerEvent \<Rightarrow> Ripple \<Rightarrow> Ripple" where
  "onPointerEnter event s =
     (if \<not> shouldReactToEvent event s then s else s\<lparr>hovered := True\<rparr>)"

definition onPointerLeave :: "PointerEvent \<Rightarrow> Ripple \<Rightarrow> Ripple" where
  "onPointerLeave event s =
     (if \<not> shouldReactToEvent event s then s
      else let s1 = s\<lparr>hovered := False\<rparr>
           in if stateRef s1 \<noteq> INACTIVE then endPressAnimation s1 else s1)"

definition onPointerUp :: "PointerEvent \<Rightarrow> Ripple \<Rightarrow> Ripple" where
  "onPointerUp event s =
     (if \<not> shouldReactToEvent event s then s
      else if stateRef s = HOLDING then s\<lparr>stateRef := WAITING_FOR_CLICK\<rparr>
      else if stateRef s = TOUCH_DELAY
        then startPressAnimation (rippleStartEventRef s) (s\<lparr>stateRef := WAITING_FOR_CLICK\<rparr>)
      else s)"

text \<open>\<open>onPointerDown\<close> up to its \<open>await\<close>, and the rest of it after the touch delay.\<close>

definition onPointerDown :: "PointerEvent \<Rightarrow> Ripple \<Rightarrow> Ripple" where
  "onPointerDown event s =
     (if \<not> shouldReactToEvent event s then s
      else let s1 = s\<lparr>rippleStartEventRef := Some event\<rparr>
           in if \<not> isTouch event
                then startPressAnimation (Some event) (s1\<lparr>stateRef := WAITING_FOR_CLICK\<rparr>)
              else setTimeout TOUCH_DELAY_MS (TouchDelayResume event)
                     (s1\<lparr>stateRef := TOUCH_DELAY\<rparr>))"

definition touchDelayResume :: "PointerEvent \<Rightarrow> Ripple \<Rightarrow> Ripple" where
  "touchDelayResume event s =
     (if stateRef s \<noteq> TOUCH_DELAY then s
      else startPressAnimation (Some event) (s\<lparr>stateRef := HOLDING\<rparr>))"

definition onPointerCancel :: "PointerEvent \<Rightarrow> Ripple \<Rightarrow> Ripple" where
  "onPointerCancel event s =
     (if \<not> shouldReactToEvent event s then s else endPressAnimation s)"

definition onClick :: "'e \<Rightarrow> Ripple \<Rightarrow> Ripple" where
  "onClick event s =
     (if disabled s then s
      else if stateRef s = WAITING_FOR_CLICK then endPressAnimation s
      else if stateRef s = INACTIVE then endPressAnimation (startPressAnimation None s)
      else s)"

subsection \<open>The event loop\<close>

text \<open>
  What can happen to a mounted hook: one of the six handlers is called, the consumer's ref
  is attached to an element (or detached, or the element's box changes), the window
  scrolls, time passes, or a pending timer fires and its continuation runs. A timer fires
  only when it is due; it may fire late.
\<close>

datatype Input =
    PointerEnter PointerEvent
  | PointerLeave PointerEvent
  | PointerDown PointerEvent
  | PointerUp PointerEvent
  | PointerCancel PointerEvent
  | Click
  | Attach "HTMLElement option"
  | Scroll real real
  | Elapse real
  | Timeout nat

definition resume :: "Continuation \<Rightarrow> Ripple \<Rightarrow> Ripple" where
  "resume k s =
     (case k of
        TouchDelayResume event \<Rightarrow> touchDelayResume event s
      | MinimumPressResume animation \<Rightarrow> minimumPressResume animation s)"

definition fire :: "nat \<Rightarrow> Ripple \<Rightarrow> Ripple" where
  "fire i s =
     (if i < length (timers s) \<and> fst (timers s ! i) \<le> now s
      then resume (snd (timers s ! i))
             (s\<lparr>timers := take i (timers s) @ drop (Suc i) (timers s)\<rparr>)
      else s)"

fun step :: "Input \<Rightarrow> Ripple \<Rightarrow> Ripple" where
  "step (PointerEnter e) s = onPointerEnter e s"
| "step (PointerLeave e) s = onPointerLeave e s"
| "step (PointerDown e) s = onPointerDown e s"
| "step (PointerUp e) s = onPointerUp e s"
| "step (PointerCancel e) s = onPointerCancel e s"
| "step Click s = onClick () s"
| "step (Attach el) s = s\<lparr>surfaceRef := el\<rparr>"
| "step (Scroll x y) s = s\<lparr>scrollX := x, scrollY := y\<rparr>"
| "step (Elapse dt) s = (if 0 \<le> dt then s\<lparr>now := now s + dt\<rparr> else s)"
| "step (Timeout i) s = fire i s"

fun run :: "Input list \<Rightarrow> Ripple \<Rightarrow> Ripple" where
  "run [] s = s"
| "run (i # is) s = run is (step i s)"

subsection \<open>Example inputs\<close>

definition example_surface :: HTMLElement where
  "example_surface = \<lparr> height = dbl 40, width = dbl 100, left = dbl 8, top_px = dbl 16 \<rparr>"

definition hidden_surface :: HTMLElement where
  "hidden_surface = \<lparr> height = dbl 0, width = dbl 0, left = dbl 0, top_px = dbl 0 \<rparr>"

text \<open>A box whose width is the double \<open>114.99999999999999\<close>, which is \<open>100 * 1.15\<close>.\<close>

definition wide_width :: real where
  "wide_width = 8092405580431359 / 2 ^ 46"

definition wide_surface :: HTMLElement where
  "wide_surface = \<lparr> height = dbl 0, width = dbl wide_width, left = dbl 0, top_px = dbl 0 \<rparr>"

definition mouse_event :: "string \<Rightarrow> PointerEvent" where
  "mouse_event ty = \<lparr> type = ty, pointerId = 1, pointerType = ''mouse'', isPrimary = True,
       buttons = 1, pageX = 30, pageY = 20 \<rparr>"

definition touch_event :: "string \<Rightarrow> PointerEvent" where
  "touch_event ty = \<lparr> type = ty, pointerId = 2, pointerType = ''touch'', isPrimary = True,
       buttons = 0, pageX = 28, pageY = 46 \<rparr>"

text \<open>A mouse press on an attached surface, released by the click 50 ms later.\<close>

definition held_press :: "Input list" where
  "held_press = [Attach (Some example_surface), PointerDown (mouse_event ''pointerdown''),
     Elapse 50]"

definition quick_click :: "Input list" where
  "quick_click = held_press @ [Click, Elapse 175]"

text \<open>A mouse press on an attached surface, after which the surface is detached.\<close>

definition detached_press :: "Input list" where
  "detached_press = [Attach (Some example_surface), PointerDown (mouse_event ''pointerdown''),
     Attach None]"

text \<open>The initial state of an enabled controller in a browser, with the surface attached.\<close>

definition mounted :: Ripple where
  "mounted = step (Attach (Some example_surface)) (useRipple False True)"

text \<open>A touch that is released at once, and a touch that is held for the touch delay.\<close>

definition touch_tap :: "Input list" where
  "touch_tap = [PointerDown (touch_event ''pointerdown''), PointerUp (touch_event ''pointerup'')]"

definition touch_hold :: "Input list" where
  "touch_hold = [PointerDown (touch_event ''pointerdown''), Elapse 150, Timeout 0]"

text \<open>
  A mouse press released at once by its click, then a touch press 100 ms later, up to the
  moment the minimum-press wait of the first press is due.
\<close>

definition touch_after_release :: "Input list" where
  "touch_after_release = [Attach (Some example_surface),
     PointerDown (mouse_event ''pointerdown''), Click, Elapse 100,
     PointerDown (touch_event ''pointerdown''), Elapse 125]"

text \<open>
  A touch on the attached surface that is still down, 150 ms later, after the window has
  scrolled by \<open>(3, 4)\<close>.
\<close>

definition touch_scrolled :: "Input list" where
  "touch_scrolled = [Attach (Some example_surface), PointerDown (touch_event ''pointerdown''),
     Scroll 3 4, Elapse 150]"

subsection \<open>Invariants of the event loop\<close>

text \<open>
  The current handle is a live animation; \<open>pressed\<close> is only true while there is one; and
  a pending minimum-press wait is due no earlier than 225 ms after the start of the
  animation it captured.
\<close>

definition handles_ok :: "Ripple \<Rightarrow> bool" where
  "handles_ok s \<longleftrightarrow>
     (\<forall>h. growAnimationRef s = Some h \<longrightarrow>
        h < length (animations s) \<and> \<not> cancelled (animations s ! h))
   \<and> (pressed s \<longrightarrow> growAnimationRef s \<noteq> None)
   \<and> (\<forall>due k. (due, k) \<in> set (timers s) \<longrightarrow> (\<forall>h. k = MinimumPressResume (Some h) \<longrightarrow>
        h < length (animations s) \<and> startTime (animations s ! h) + MINIMUM_PRESS_MS \<le> due))"

text \<open>The current grow animation started at least 225 ms ago.\<close>

definition pressed_long_enough :: "Ripple \<Rightarrow> bool" where
  "pressed_long_enough s \<longleftrightarrow>
     (\<exists>h. growAnimationRef s = Some h \<and> h < length (animations s)
        \<and> startTime (animations s ! h) + MINIMUM_PRESS_MS \<le> now s)"

text \<open>The current handle was made when at least \<open>n\<close> animations existed already.\<close>

definition fresh_handle :: "nat \<Rightarrow> Ripple \<Rightarrow> bool" where
  "fresh_handle n s \<longleftrightarrow>
     (\<exists>g. growAnimationRef s = Some g \<and> n \<le> g \<and> g < length (animations s))"

text \<open>A disabled controller at rest.\<close>

definition disabled_idle :: "Ripple \<Rightarrow> bool" where
  "disabled_idle s \<longleftrightarrow> disabled s \<and> \<not> hovered s \<and> \<not> pressed s \<and> timers s = []"

text \<open>
  While the phase is \<open>TOUCH_DELAY\<close>, the stored origin event is a touch event and the
  delay that its \<open>pointerdown\<close> scheduled is pending.
\<close>

definition touch_delay_ok :: "Ripple \<Rightarrow> bool" where
  "touch_delay_ok s \<longleftrightarrow>
     (stateRef s = TOUCH_DELAY \<longrightarrow>
        (\<exists>e due. rippleStartEventRef s = Some e \<and> pointerType e = ''touch''
           \<and> (due, TouchDelayResume e) \<in> set (timers s)))"

section \<open>Properties\<close>

subsection \<open>Rounding to binary64\<close>

lemma floor_log2_eq:
  assumes "2 powi k \<le> \<bar>x\<bar>" "\<bar>x\<bar> < 2 powi (k + 1)"
  shows "\<lfloor>log 2 \<bar>x\<bar>\<rfloor> = k"
proof -
  have "0 < (2::real) powi k" by simp
  with assms(1) have pos: "0 < \<bar>x\<bar>" by linarith
  have "(2::real) powr (of_int k) = 2 powi k" "(2::real) powr (of_int k + 1) = 2 powi (k + 1)"
    using powr_real_of_int' [of "2::real" k] powr_real_of_int' [of "2::real" "k + 1"]
    by simp_all
  with assms pos show ?thesis
    by (simp add: floor_log_eq_powr_iff)
qed

lemma round64_eval:
  assumes "2 powi k \<le> \<bar>x\<bar>" "\<bar>x\<bar> < 2 powi (k + 1)"
  shows "round64 x = of_int (roundTiesToEven (x / 2 powi (max k (- 1022) - 52)))
           * 2 powi (max k (- 1022) - 52)"
proof -
  have "0 < (2::real) powi k" by simp
  with assms(1) have "0 < \<bar>x\<bar>" by linarith
  then have "x \<noteq> 0" by auto
  then show ?thesis
    by (simp add: round64_def Let_def floor_log2_eq [OF assms])
qed

lemma sqrt_between:
  assumes "0 \<le> a" "a\<^sup>2 < x" "x < b\<^sup>2" "0 \<le> b"
  shows "a < sqrt x \<and> sqrt x < b"
  using assms by (metis real_sqrt_less_iff real_sqrt_abs abs_of_nonneg)

lemma roundTiesToEven_eqI:
  assumes "of_int n - 1 / 2 < y" "y < of_int n + 1 / 2"
  shows "roundTiesToEven y = n"
proof -
  have "\<lfloor>y\<rfloor> = n \<or> \<lfloor>y\<rfloor> = n - 1"
    using assms by linarith
  then show ?thesis
  proof
    assume "\<lfloor>y\<rfloor> = n"
    with assms show ?thesis by (simp add: roundTiesToEven_def Let_def)
  next
    assume "\<lfloor>y\<rfloor> = n - 1"
    with assms show ?thesis by (simp add: roundTiesToEven_def Let_def)
  qed
qed

lemma roundTiesToEven_of_int [simp]: "roundTiesToEven (of_int n) = n"
  by (rule roundTiesToEven_eqI) simp_all

lemma roundTiesToEven_error: "\<bar>of_int (roundTiesToEven y) - y\<bar> \<le> 1 / 2"
  unfolding roundTiesToEven_def Let_def by (auto; linarith)

lemma roundTiesToEven_nonneg: "0 \<le> y \<Longrightarrow> 0 \<le> roundTiesToEven y"
  unfolding roundTiesToEven_def Let_def by (auto; linarith)

lemma round64_nonneg: "0 \<le> x \<Longrightarrow> 0 \<le> round64 x"
  by (simp add: round64_def Let_def roundTiesToEven_nonneg)

lemma round64_error:
  "\<bar>round64 x - x\<bar> \<le> \<bar>x\<bar> / 2 ^ 53 + 1 / 2 ^ 60"
proof (cases "x = 0")
  case True
  then show ?thesis by (simp add: round64_def)
next
  case False
  define e where "e = \<lfloor>log 2 \<bar>x\<bar>\<rfloor>"
  define q :: real where "q = 2 powi (max e (- 1022) - 52)"
  have qpos: "0 < q" by (simp add: q_def)
  have r: "round64 x = of_int (roundTiesToEven (x / q)) * q"
    using False by (simp add: round64_def Let_def q_def e_def)
  have "\<bar>of_int (roundTiesToEven (x / q)) - x / q\<bar> \<le> 1 / 2"
    by (rule roundTiesToEven_error)
  then have "\<bar>of_int (roundTiesToEven (x / q)) - x / q\<bar> * q \<le> 1 / 2 * q"
    using qpos by (intro mult_right_mono) simp_all
  moreover have "\<bar>of_int (roundTiesToEven (x / q)) - x / q\<bar> * q = \<bar>round64 x - x\<bar>"
  proof -
    have "\<bar>of_int (roundTiesToEven (x / q)) - x / q\<bar> * q
        = \<bar>(of_int (roundTiesToEven (x / q)) - x / q) * q\<bar>"
      using qpos by (simp add: abs_mult)
    also have "(of_int (roundTiesToEven (x / q)) - x / q) * q = round64 x - x"
      using qpos by (simp add: r field_simps)
    finally show ?thesis .
  qed
  ultimately have err: "\<bar>round64 x - x\<bar> \<le> q / 2" by simp
  have "(2::real) powr (of_int e) \<le> \<bar>x\<bar>"
    using False floor_log_eq_powr_iff [of "\<bar>x\<bar>" 2 e] by (simp add: e_def)
  then have le: "(2::real) powi e \<le> \<bar>x\<bar>"
    using powr_real_of_int' [of "2::real" e] by simp
  have "q \<le> \<bar>x\<bar> / 2 ^ 52 + 1 / 2 ^ 59"
  proof (cases "- 1022 \<le> e")
    case True
    then have "q = 2 powi e / 2 ^ 52"
      by (simp add: q_def power_int_diff)
    with le show ?thesis by (simp add: divide_right_mono add_increasing2)
  next
    case False
    then have ex: "max e (- 1022) - 52 \<le> - 59" by simp
    have "q \<le> 2 powi (- 59)"
      unfolding q_def by (rule power_int_increasing [OF ex]) simp
    also have "(2::real) powi (- 59) = 1 / 2 ^ 59"
      by simp
    finally show ?thesis by (simp add: add_increasing)
  qed
  then have "q / 2 \<le> \<bar>x\<bar> / 2 ^ 53 + 1 / 2 ^ 60" by simp
  with err show ?thesis by linarith
qed

lemma binary64_finite:
  assumes "\<bar>x\<bar> \<le> 2 ^ 1023"
  shows "binary64 x = Num (round64 x)"
proof -
  define T :: real where "T = 2 ^ 1023"
  have T: "1 \<le> T" "2 ^ 1024 = 2 * T" by (simp_all add: T_def)
  have x: "\<bar>x\<bar> \<le> T" using assms by (simp add: T_def)
  have "\<bar>x\<bar> / 2 ^ 53 \<le> \<bar>x\<bar> / 2" by simp
  with round64_error [of x] have "\<bar>round64 x - x\<bar> \<le> \<bar>x\<bar> / 2 + 1 / 2 ^ 60"
    by linarith
  moreover have "(1::real) / 2 ^ 60 \<le> 1 / 4" by simp
  ultimately have "\<bar>round64 x\<bar> < 2 * T"
    using x T(1) by linarith
  then show ?thesis unfolding binary64_def T(2) by simp
qed

lemma round64_0 [simp]: "round64 0 = 0"
  by (simp add: round64_def)

lemma val_dbl: "is_binary64 x \<Longrightarrow> val (dbl x) = x"
  by (simp add: dbl_def Abs_double_inverse)

lemma is_binary64_val: "is_binary64 (val d)"
  using val [of d] by simp

lemma is_binary64_I:
  assumes "2 powi k \<le> \<bar>x\<bar>" "\<bar>x\<bar> < 2 powi (k + 1)" "- 1022 \<le> k" "k \<le> 1023"
    "x / 2 powi (k - 52) = of_int n"
  shows "is_binary64 x"
proof -
  have q: "0 < (2::real) powi (k - 52)" by simp
  have "round64 x = of_int (roundTiesToEven (x / 2 powi (k - 52))) * 2 powi (k - 52)"
    using round64_eval [OF assms(1,2)] assms(3) by (simp add: max_def)
  also have "\<dots> = x / 2 powi (k - 52) * 2 powi (k - 52)"
    by (simp add: assms(5))
  also have "\<dots> = x" using q by simp
  finally have r: "round64 x = x" .
  have "(2::real) powi (k + 1) \<le> 2 powi 1024"
    by (rule power_int_increasing) (use assms(4) in simp_all)
  with assms(2) have "\<bar>x\<bar> < 2 powi 1024" by linarith
  then have "\<bar>x\<bar> < 2 ^ 1024" by (simp del: power_numeral)
  with r show ?thesis by (simp add: is_binary64_def del: power_numeral)
qed

lemma is_binary64_examples:
  "is_binary64 0" "is_binary64 8" "is_binary64 16" "is_binary64 40" "is_binary64 100"
  "is_binary64 wide_width"
       apply (simp add: is_binary64_def)
      apply (rule is_binary64_I [where k = 3 and n = "2 ^ 52"]; simp)
     apply (rule is_binary64_I [where k = 4 and n = "2 ^ 52"]; simp)
    apply (rule is_binary64_I [where k = 5 and n = "5 * 2 ^ 50"]; simp)
   apply (rule is_binary64_I [where k = 6 and n = "25 * 2 ^ 48"]; simp)
  apply (rule is_binary64_I [where k = 6 and n = 8092405580431359]; simp add: wide_width_def)
  done

lemma val_examples:
  "val (dbl 0) = 0" "val (dbl 8) = 8" "val (dbl 16) = 16" "val (dbl 40) = 40"
  "val (dbl 100) = 100"
  "val (dbl wide_width) = wide_width"
  by (simp_all only: val_dbl is_binary64_examples)

lemma INITIAL_ORIGIN_SCALE_value: "INITIAL_ORIGIN_SCALE = 3602879701896397 / 2 ^ 54"
  unfolding INITIAL_ORIGIN_SCALE_def
  by (subst round64_eval [where k = "- 3"]) (simp_all add: roundTiesToEven_def)

lemma SOFT_EDGE_CONTAINER_RATIO_value: "SOFT_EDGE_CONTAINER_RATIO = 3152519739159347 / 2 ^ 53"
  unfolding SOFT_EDGE_CONTAINER_RATIO_def
  by (subst round64_eval [where k = "- 2"]) (simp_all add: roundTiesToEven_def)

text \<open>The product under \<open>Math.floor\<close> is a finite number, for every box.\<close>

lemma initial_size_finite:
  "binary64 (max (val a) (val b) * INITIAL_ORIGIN_SCALE)
     = Num (round64 (max (val a) (val b) * INITIAL_ORIGIN_SCALE))"
proof (rule binary64_finite)
  define T :: real where "T = 2 ^ 1023"
  have T: "2 ^ 1024 = 2 * T" by (simp add: T_def)
  have "is_binary64 (max (val a) (val b))"
    by (simp add: max_def is_binary64_val)
  then have m: "\<bar>max (val a) (val b)\<bar> < 2 * T"
    unfolding is_binary64_def T by simp
  have "\<bar>max (val a) (val b) * INITIAL_ORIGIN_SCALE\<bar>
      = \<bar>max (val a) (val b)\<bar> * (3602879701896397 / 2 ^ 54)"
    by (simp add: INITIAL_ORIGIN_SCALE_value abs_mult)
  also have "\<dots> \<le> \<bar>max (val a) (val b)\<bar> * (1 / 2)"
    by (intro mult_left_mono) simp_all
  also have "\<dots> \<le> T" using m by simp
  finally show "\<bar>max (val a) (val b) * INITIAL_ORIGIN_SCALE\<bar> \<le> 2 ^ 1023"
    unfolding T_def .
qed

lemma initial_size_example [simp]: "round64 (100 * INITIAL_ORIGIN_SCALE) = 20"
  unfolding INITIAL_ORIGIN_SCALE_value
  by (subst round64_eval [where k = 4]) (simp_all add: roundTiesToEven_def)

subsection \<open>Unfolding the model on concrete inputs\<close>

lemmas ripple_defs =
  useRipple_def example_surface_def hidden_surface_def mouse_event_def touch_event_def
  held_press_def quick_click_def detached_press_def mounted_def touch_tap_def touch_hold_def
  touch_after_release_def touch_scrolled_def
  onPointerEnter_def onPointerLeave_def onPointerDown_def onPointerUp_def onPointerCancel_def
  onClick_def shouldReactToEvent_def isTouch_def startPressAnimation_def endPressAnimation_def
  minimumPressResume_def touchDelayResume_def resume_def fire_def setTimeout_def cancel_def
  animate_def determineRippleSize_def getTranslationCoordinates_def
  getNormalizedPointerEventCoords_def animation_currentTime_def currentTime_def
  val_examples isFinite_def PRESS_GROW_MS_def MINIMUM_PRESS_MS_def PADDING_def
  SOFT_EDGE_MINIMUM_SIZE_def TOUCH_DELAY_MS_def Let_def

subsection \<open>What \<open>startPressAnimation\<close> and \<open>endPressAnimation\<close> change\<close>

lemma startTime_cancelled:
  "startTime (as[g := (as ! g)\<lparr>cancelled := True\<rparr>] ! h) = startTime (as ! h)"
  by (cases "g = h"; cases "g < length as") (simp_all add: list_update_beyond)

lemma startPressAnimation_skipped:
  "\<not> isBrowser s \<or> surfaceRef s = None \<Longrightarrow> startPressAnimation event s = s"
  by (auto simp: startPressAnimation_def)

lemma startPressAnimation_started:
  assumes "isBrowser s" "surfaceRef s = Some el"
  shows "pressed (startPressAnimation event s)"
    and "growAnimationRef (startPressAnimation event s) = Some (length (animations s))"
    and "length (animations (startPressAnimation event s)) = Suc (length (animations s))"
    and "timers (startPressAnimation event s) = timers s"
    and "now (startPressAnimation event s) = now s"
    and "stateRef (startPressAnimation event s) = stateRef s"
    and "rippleStartEventRef (startPressAnimation event s) = rippleStartEventRef s"
    and "hovered (startPressAnimation event s) = hovered s"
    and "startTime (animations (startPressAnimation event s) ! length (animations s)) = now s"
    and "\<not> cancelled (animations (startPressAnimation event s) ! length (animations s))"
    and "h < length (animations s) \<Longrightarrow>
           startTime (animations (startPressAnimation event s) ! h) = startTime (animations s ! h)"
    and "growAnimationRef s = Some g \<Longrightarrow> g < length (animations s) \<Longrightarrow>
           cancelled (animations (startPressAnimation event s) ! g)"
  using assms
  by (auto simp: startPressAnimation_def Let_def cancel_def determineRippleSize_def animate_def
      nth_append startTime_cancelled split: prod.splits option.splits)

lemma startPressAnimation_keeps [simp]:
  "now (startPressAnimation event s) = now s"
  "timers (startPressAnimation event s) = timers s"
  "stateRef (startPressAnimation event s) = stateRef s"
  "rippleStartEventRef (startPressAnimation event s) = rippleStartEventRef s"
  "hovered (startPressAnimation event s) = hovered s"
  "disabled (startPressAnimation event s) = disabled s"
  "isBrowser (startPressAnimation event s) = isBrowser s"
  "surfaceRef (startPressAnimation event s) = surfaceRef s"
  by (auto simp: startPressAnimation_def Let_def cancel_def determineRippleSize_def animate_def
      split: prod.splits option.splits)

lemma startPressAnimation_keyframes:
  assumes "isBrowser s" "surfaceRef s = Some el"
  shows "translateStart (animations (startPressAnimation None s) ! length (animations s)) =
           (val (width el) / 2 - of_int (initialSize el) / 2,
            val (height el) / 2 - of_int (initialSize el) / 2)"
    and "translateStart (animations (startPressAnimation (Some e) s) ! length (animations s)) =
           (pageX e - (scrollX s + val (left el)) - of_int (initialSize el) / 2,
            pageY e - (scrollY s + val (top_px el)) - of_int (initialSize el) / 2)"
    and "translateEnd (animations (startPressAnimation event s) ! length (animations s)) =
           ((val (width el) - of_int (initialSize el)) / 2,
            (val (height el) - of_int (initialSize el)) / 2)"
  using assms
  by (auto simp: startPressAnimation_def Let_def cancel_def determineRippleSize_def animate_def
      getTranslationCoordinates_def getNormalizedPointerEventCoords_def
      nth_append split: prod.splits option.splits)

lemma pressed_startPressAnimation:
  "pressed s \<Longrightarrow> pressed (startPressAnimation event s)"
  by (cases "isBrowser s \<and> surfaceRef s \<noteq> None")
     (auto simp: startPressAnimation_skipped startPressAnimation_started)

lemma endPressAnimation_cases:
  "endPressAnimation s =
     (case animation_currentTime (growAnimationRef s) s of
        None \<Rightarrow> s\<lparr>rippleStartEventRef := None, stateRef := INACTIVE, pressed := False\<rparr>
      | Some ct \<Rightarrow>
          if MINIMUM_PRESS_MS \<le> ct
          then s\<lparr>rippleStartEventRef := None, stateRef := INACTIVE, pressed := False\<rparr>
          else s\<lparr>rippleStartEventRef := None, stateRef := INACTIVE,
                 timers := timers s @
                   [(now s + (MINIMUM_PRESS_MS - ct), MinimumPressResume (growAnimationRef s))]\<rparr>)"
  by (simp add: endPressAnimation_def Let_def setTimeout_def animation_currentTime_def
      split: option.splits)

lemma endPressAnimation_keeps [simp]:
  "now (endPressAnimation s) = now s"
  "growAnimationRef (endPressAnimation s) = growAnimationRef s"
  "animations (endPressAnimation s) = animations s"
  "hovered (endPressAnimation s) = hovered s"
  "disabled (endPressAnimation s) = disabled s"
  "isBrowser (endPressAnimation s) = isBrowser s"
  "surfaceRef (endPressAnimation s) = surfaceRef s"
  "rippleStartEventRef (endPressAnimation s) = None"
  "stateRef (endPressAnimation s) = INACTIVE"
  by (simp_all add: endPressAnimation_cases split: option.splits)

lemma currentTime_short:
  "animation_currentTime (Some h) s = Some ct \<Longrightarrow> ct < MINIMUM_PRESS_MS \<Longrightarrow>
     h < length (animations s) \<and> ct = now s - startTime (animations s ! h)"
  by (auto simp: animation_currentTime_def currentTime_def MINIMUM_PRESS_MS_def
      PRESS_GROW_MS_def split: if_splits)

lemma fresh_press_currentTime:
  assumes "isBrowser s" "surfaceRef s = Some el"
  shows "animation_currentTime (growAnimationRef (startPressAnimation event s))
           (startPressAnimation event s) = Some 0"
  using startPressAnimation_started [OF assms, where event = event]
  by (simp add: animation_currentTime_def currentTime_def PRESS_GROW_MS_def)

lemma fresh_press_not_ended:
  assumes "isBrowser s" "surfaceRef s = Some el"
  shows "pressed (endPressAnimation (startPressAnimation event s))"
  using fresh_press_currentTime [OF assms, where event = event]
    startPressAnimation_started(1) [OF assms, where event = event]
  by (simp add: endPressAnimation_cases MINIMUM_PRESS_MS_def)

lemma now_step: "now s \<le> now (step i s)"
  by (cases i)
     (auto simp: onPointerEnter_def onPointerLeave_def onPointerDown_def onPointerUp_def
        onPointerCancel_def onClick_def fire_def Let_def setTimeout_def resume_def
        touchDelayResume_def minimumPressResume_def split: Continuation.splits)

subsection \<open>The invariant \<open>handles_ok\<close>\<close>

lemma handles_ok_useRipple: "handles_ok (useRipple d b)"
  by (simp add: handles_ok_def useRipple_def)

lemma handles_ok_startPressAnimation:
  assumes "handles_ok s"
  shows "handles_ok (startPressAnimation event s)"
proof (cases "isBrowser s \<and> surfaceRef s \<noteq> None")
  case False
  then show ?thesis using assms by (auto simp: startPressAnimation_skipped)
next
  case True
  then obtain el where g: "isBrowser s" "surfaceRef s = Some el" by auto
  note st = startPressAnimation_started [OF g]
  show ?thesis
    unfolding handles_ok_def
    using assms st(11)[of _ event]
    by (auto simp: st(1-10) handles_ok_def less_Suc_eq)
qed

lemma handles_ok_endPressAnimation:
  assumes "handles_ok s"
  shows "handles_ok (endPressAnimation s)"
proof (cases "animation_currentTime (growAnimationRef s) s")
  case None
  then show ?thesis using assms by (simp add: endPressAnimation_cases handles_ok_def)
next
  case (Some ct)
  show ?thesis
  proof (cases "MINIMUM_PRESS_MS \<le> ct")
    case True
    then show ?thesis using assms Some by (simp add: endPressAnimation_cases handles_ok_def)
  next
    case False
    from Some obtain h where h: "growAnimationRef s = Some h"
      by (cases "growAnimationRef s") (simp_all add: animation_currentTime_def)
    from currentTime_short [of h s ct] Some h False
    have "h < length (animations s)" "ct = now s - startTime (animations s ! h)" by simp_all
    then show ?thesis using assms Some False h
      by (auto simp: endPressAnimation_cases handles_ok_def)
  qed
qed

lemma handles_ok_irrelevant [simp]:
  "handles_ok (s\<lparr>hovered := x\<rparr>) = handles_ok s"
  "handles_ok (s\<lparr>stateRef := y\<rparr>) = handles_ok s"
  "handles_ok (s\<lparr>rippleStartEventRef := z\<rparr>) = handles_ok s"
  "handles_ok (s\<lparr>surfaceRef := el\<rparr>) = handles_ok s"
  "handles_ok (s\<lparr>scrollX := sx\<rparr>) = handles_ok s"
  "handles_ok (s\<lparr>scrollY := sy\<rparr>) = handles_ok s"
  "handles_ok (s\<lparr>now := t\<rparr>) = handles_ok s"
  by (simp_all add: handles_ok_def)

lemma handles_ok_touch_timer:
  "handles_ok s \<Longrightarrow> handles_ok (setTimeout d (TouchDelayResume e) s)"
  by (auto simp: handles_ok_def setTimeout_def)

lemma handles_ok_drop_timer:
  "handles_ok s \<Longrightarrow> handles_ok (s\<lparr>timers := take i (timers s) @ drop (Suc i) (timers s)\<rparr>)"
  by (auto simp: handles_ok_def dest: in_set_takeD in_set_dropD)

lemma handles_ok_resume:
  "handles_ok s \<Longrightarrow> handles_ok (resume k s)"
  by (cases k)
     (auto simp: resume_def touchDelayResume_def minimumPressResume_def
        handles_ok_startPressAnimation, auto simp: handles_ok_def)

lemma handles_ok_step: "handles_ok s \<Longrightarrow> handles_ok (step i s)"
  by (cases i)
     (auto simp: onPointerEnter_def onPointerLeave_def onPointerDown_def onPointerUp_def
        onPointerCancel_def onClick_def fire_def Let_def
        handles_ok_startPressAnimation handles_ok_endPressAnimation
        handles_ok_touch_timer handles_ok_drop_timer handles_ok_resume)

lemma handles_ok_run: "handles_ok s \<Longrightarrow> handles_ok (run ins s)"
  by (induction ins arbitrary: s) (simp_all add: handles_ok_step)

subsection \<open>When \<open>pressed\<close> falls\<close>

lemma pressed_long_enough_irrelevant [simp]:
  "pressed_long_enough (s\<lparr>hovered := x\<rparr>) = pressed_long_enough s"
  "pressed_long_enough (s\<lparr>stateRef := y\<rparr>) = pressed_long_enough s"
  "pressed_long_enough (s\<lparr>rippleStartEventRef := z\<rparr>) = pressed_long_enough s"
  "pressed_long_enough (s\<lparr>timers := ts\<rparr>) = pressed_long_enough s"
  by (simp_all add: pressed_long_enough_def)

lemma endPressAnimation_flip:
  assumes "handles_ok s" "pressed s" "\<not> pressed (endPressAnimation s)"
  shows "pressed_long_enough s"
proof -
  from assms(1,2) obtain h where h: "growAnimationRef s = Some h" "h < length (animations s)"
    "\<not> cancelled (animations s ! h)"
    by (auto simp: handles_ok_def)
  then have ct: "animation_currentTime (growAnimationRef s) s
      = Some (min (now s - startTime (animations s ! h)) PRESS_GROW_MS)"
    by (simp add: animation_currentTime_def currentTime_def)
  with assms(2,3) have "MINIMUM_PRESS_MS \<le> min (now s - startTime (animations s ! h)) PRESS_GROW_MS"
    by (auto simp: endPressAnimation_cases split: if_splits)
  then show ?thesis using h by (auto simp: pressed_long_enough_def)
qed

lemma resume_flip:
  assumes "handles_ok s" "pressed s" "(due, k) \<in> set (timers s)" "due \<le> now s"
    "\<not> pressed (resume k (s\<lparr>timers := ts\<rparr>))"
  shows "pressed_long_enough s"
proof (cases k)
  case (TouchDelayResume e)
  with assms(2,5)
    pressed_startPressAnimation [of "s\<lparr>timers := ts, stateRef := HOLDING\<rparr>" "Some e"]
  show ?thesis
    by (auto simp: resume_def touchDelayResume_def split: if_splits)
next
  case (MinimumPressResume a)
  with assms(2,5) have a: "growAnimationRef s = a"
    by (auto simp: resume_def minimumPressResume_def split: if_splits)
  with assms(1,2) obtain h where "a = Some h" by (auto simp: handles_ok_def)
  with assms(1,3,4) a MinimumPressResume show ?thesis
    by (fastforce simp: handles_ok_def pressed_long_enough_def)
qed

lemma step_flip:
  assumes "handles_ok s" "pressed s" "\<not> pressed (step i s)"
  shows "pressed_long_enough s"
proof (cases i)
  case (PointerEnter e)
  with assms show ?thesis by (auto simp: onPointerEnter_def split: if_splits)
next
  case (PointerLeave e)
  with assms endPressAnimation_flip [of "s\<lparr>hovered := False\<rparr>"] show ?thesis
    by (auto simp: onPointerLeave_def Let_def split: if_splits)
next
  case (PointerDown e)
  with assms
    pressed_startPressAnimation
      [of "s\<lparr>rippleStartEventRef := Some e, stateRef := WAITING_FOR_CLICK\<rparr>" "Some e"]
  show ?thesis
    by (auto simp: onPointerDown_def Let_def setTimeout_def split: if_splits)
next
  case (PointerUp e)
  with assms
    pressed_startPressAnimation [of "s\<lparr>stateRef := WAITING_FOR_CLICK\<rparr>" "rippleStartEventRef s"]
  show ?thesis
    by (auto simp: onPointerUp_def split: if_splits)
next
  case (PointerCancel e)
  with assms endPressAnimation_flip [of s] show ?thesis
    by (auto simp: onPointerCancel_def split: if_splits)
next
  case Click
  show ?thesis
  proof (cases "isBrowser s \<and> surfaceRef s \<noteq> None")
    case True
    with assms Click endPressAnimation_flip [of s] fresh_press_not_ended [of s _ None]
    show ?thesis by (auto simp: onClick_def split: if_splits)
  next
    case False
    with assms Click endPressAnimation_flip [of s] show ?thesis
      by (auto simp: onClick_def startPressAnimation_skipped split: if_splits)
  qed
next
  case (Attach el)
  with assms show ?thesis by simp
next
  case (Scroll x y)
  with assms show ?thesis by simp
next
  case (Elapse dt)
  with assms show ?thesis by (simp split: if_splits)
next
  case (Timeout n)
  with assms have f: "n < length (timers s)" "fst (timers s ! n) \<le> now s"
    "\<not> pressed (resume (snd (timers s ! n))
        (s\<lparr>timers := take n (timers s) @ drop (Suc n) (timers s)\<rparr>))"
    by (auto simp: fire_def split: if_splits)
  from f(1) have "(fst (timers s ! n), snd (timers s ! n)) \<in> set (timers s)" by simp
  from resume_flip [OF assms(1,2) this f(2,3)] show ?thesis .
qed

subsection \<open>Minimum visible press duration\<close>

text \<open>
  Claim C1. When \<open>endPressAnimation\<close> runs and the current grow animation's \<open>currentTime\<close>
  is unavailable (taken as infinity) or at least 225 ms, \<open>pressed\<close> is false at once and
  no wait is scheduled. When it is a number \<open>ct\<close> below 225, \<open>pressed\<close> is left as it
  is and a wait of \<open>225 - ct\<close> ms is scheduled, whose completion is the only thing that
  then sets it to false. Hence, along every sequence of inputs from the initial state,
  whenever an input makes \<open>pressed\<close> go from true to false, the grow animation of that
  press was started at least 225 ms earlier.
\<close>

theorem minimum_press_duration:
  "(animation_currentTime (growAnimationRef s) s = None
      \<or> (\<exists>ct. animation_currentTime (growAnimationRef s) s = Some ct \<and> 225 \<le> ct)
     \<longrightarrow> \<not> pressed (endPressAnimation s) \<and> timers (endPressAnimation s) = timers s)
   \<and> (\<forall>ct. animation_currentTime (growAnimationRef s) s = Some ct \<and> ct < 225
     \<longrightarrow> pressed (endPressAnimation s) = pressed s
       \<and> timers (endPressAnimation s) =
           timers s @ [(now s + (225 - ct), MinimumPressResume (growAnimationRef s))])
   \<and> (pressed (run ins (useRipple d b)) \<and> \<not> pressed (step i (run ins (useRipple d b)))
     \<longrightarrow> (\<exists>h. growAnimationRef (run ins (useRipple d b)) = Some h
           \<and> h < length (animations (run ins (useRipple d b)))
           \<and> startTime (animations (run ins (useRipple d b)) ! h) + 225
               \<le> now (step i (run ins (useRipple d b)))))"
proof (intro conjI impI allI)
  assume "pressed (run ins (useRipple d b)) \<and> \<not> pressed (step i (run ins (useRipple d b)))"
  moreover have ok: "handles_ok (run ins (useRipple d b))"
    by (simp add: handles_ok_run handles_ok_useRipple)
  ultimately have "pressed_long_enough (run ins (useRipple d b))"
    using step_flip by blast
  moreover have "now (run ins (useRipple d b)) \<le> now (step i (run ins (useRipple d b)))"
    by (rule now_step)
  ultimately show "\<exists>h. growAnimationRef (run ins (useRipple d b)) = Some h
           \<and> h < length (animations (run ins (useRipple d b)))
           \<and> startTime (animations (run ins (useRipple d b)) ! h) + 225
               \<le> now (step i (run ins (useRipple d b)))"
    by (auto simp: pressed_long_enough_def MINIMUM_PRESS_MS_def)
qed (auto simp: endPressAnimation_cases MINIMUM_PRESS_MS_def)

theorem minimum_press_duration_witness:
  "pressed (run quick_click (useRipple False True))
   \<and> \<not> pressed (step (Timeout 0) (run quick_click (useRipple False True)))
   \<and> (\<exists>h. growAnimationRef (run quick_click (useRipple False True)) = Some h
         \<and> h < length (animations (run quick_click (useRipple False True)))
         \<and> startTime (animations (run quick_click (useRipple False True)) ! h) + 225
             \<le> now (step (Timeout 0) (run quick_click (useRipple False True))))
   \<and> animation_currentTime (growAnimationRef (run held_press (useRipple False True)))
        (run held_press (useRipple False True)) = Some 50
   \<and> pressed (endPressAnimation (run held_press (useRipple False True)))
   \<and> timers (endPressAnimation (run held_press (useRipple False True)))
       = [(225, MinimumPressResume (Some 0))]
   \<and> animation_currentTime (growAnimationRef (useRipple False True)) (useRipple False True) = None
   \<and> \<not> pressed (endPressAnimation (useRipple False True))"
proof -
  have p: "pressed (run quick_click (useRipple False True))"
    by (simp add: ripple_defs)
  have q: "\<not> pressed (step (Timeout 0) (run quick_click (useRipple False True)))"
    by (simp add: ripple_defs)
  have c: "animation_currentTime (growAnimationRef (run held_press (useRipple False True)))
        (run held_press (useRipple False True)) = Some 50"
    by (simp add: ripple_defs)
  have t: "timers (run held_press (useRipple False True)) = []"
    "now (run held_press (useRipple False True)) = 50"
    "growAnimationRef (run held_press (useRipple False True)) = Some 0"
    "pressed (run held_press (useRipple False True))"
    by (simp_all add: ripple_defs)
  have n: "animation_currentTime (growAnimationRef (useRipple False True)) (useRipple False True) = None"
    by (simp add: ripple_defs)
  show ?thesis
    using p q c t n
      minimum_press_duration [where ins = quick_click and d = False and b = True
        and i = "Timeout 0" and s = "run held_press (useRipple False True)"]
      minimum_press_duration [where s = "useRipple False True"]
    by simp
qed

subsection \<open>Event admissibility\<close>

text \<open>
  Claim C3. \<open>shouldReactToEvent\<close> returns false exactly when the controller is disabled,
  or the event is not from the primary pointer, or an origin event with a different
  \<open>pointerId\<close> is tracked, or the event is a \<open>pointerenter\<close>/\<open>pointerleave\<close> of a touch
  pointer, or the event is of another type and is neither a touch event nor has
  \<open>buttons = 1\<close>. When it returns false, each of the five pointer handlers returns the
  state unchanged. In particular every event of a pointer whose \<open>pointerId\<close> differs from
  that of the tracked origin event is ignored.
\<close>

theorem shouldReactToEvent_admissibility:
  "(\<not> shouldReactToEvent e s \<longleftrightarrow>
      disabled s \<or> \<not> isPrimary e
      \<or> (\<exists>origin. rippleStartEventRef s = Some origin \<and> pointerId origin \<noteq> pointerId e)
      \<or> ((type e = ''pointerenter'' \<or> type e = ''pointerleave'') \<and> pointerType e = ''touch'')
      \<or> (type e \<noteq> ''pointerenter'' \<and> type e \<noteq> ''pointerleave''
          \<and> pointerType e \<noteq> ''touch'' \<and> buttons e \<noteq> 1))
   \<and> (\<not> shouldReactToEvent e s \<longrightarrow>
        onPointerEnter e s = s \<and> onPointerLeave e s = s \<and> onPointerDown e s = s
        \<and> onPointerUp e s = s \<and> onPointerCancel e s = s)
   \<and> (\<forall>a. rippleStartEventRef s = Some a \<and> pointerId e \<noteq> pointerId a \<longrightarrow>
        \<not> shouldReactToEvent e s)"
  by (auto simp: shouldReactToEvent_def isTouch_def onPointerEnter_def onPointerLeave_def
      onPointerDown_def onPointerUp_def onPointerCancel_def split: option.splits)

theorem shouldReactToEvent_admissibility_witness:
  "rippleStartEventRef (run held_press (useRipple False True)) = Some (mouse_event ''pointerdown'')
   \<and> pointerId (touch_event ''pointerdown'') \<noteq> pointerId (mouse_event ''pointerdown'')
   \<and> \<not> shouldReactToEvent (touch_event ''pointerdown'') (run held_press (useRipple False True))
   \<and> onPointerDown (touch_event ''pointerdown'') (run held_press (useRipple False True))
       = run held_press (useRipple False True)
   \<and> onPointerUp (touch_event ''pointerdown'') (run held_press (useRipple False True))
       = run held_press (useRipple False True)"
proof -
  have o: "rippleStartEventRef (run held_press (useRipple False True))
      = Some (mouse_event ''pointerdown'')"
    by (simp add: ripple_defs)
  have i: "pointerId (touch_event ''pointerdown'') \<noteq> pointerId (mouse_event ''pointerdown'')"
    by (simp add: mouse_event_def touch_event_def)
  from o i shouldReactToEvent_admissibility
    [of "touch_event ''pointerdown''" "run held_press (useRipple False True)"]
  show ?thesis by blast
qed

subsection \<open>Hover\<close>

text \<open>
  Claim C7. For a \<open>pointerenter\<close> or \<open>pointerleave\<close> event whose pointer type is
  \<open>touch\<close>, \<open>shouldReactToEvent\<close> is false in every state, and \<open>onPointerEnter\<close> and
  \<open>onPointerLeave\<close> return the state unchanged; \<open>hovered\<close> keeps its value.
\<close>

theorem touch_never_hovers:
  "type e = ''pointerenter'' \<or> type e = ''pointerleave'' \<Longrightarrow> pointerType e = ''touch'' \<Longrightarrow>
     \<not> shouldReactToEvent e s \<and> onPointerEnter e s = s \<and> onPointerLeave e s = s
     \<and> hovered (onPointerEnter e s) = hovered s \<and> hovered (onPointerLeave e s) = hovered s"
  by (auto simp: shouldReactToEvent_def isTouch_def onPointerEnter_def onPointerLeave_def
      split: option.splits)

theorem touch_never_hovers_witness:
  "(type (touch_event ''pointerenter'') = ''pointerenter''
      \<or> type (touch_event ''pointerenter'') = ''pointerleave'')
   \<and> pointerType (touch_event ''pointerenter'') = ''touch''
   \<and> \<not> hovered (onPointerEnter (touch_event ''pointerenter'') (useRipple False True))
   \<and> \<not> hovered (onPointerLeave (touch_event ''pointerenter'') (useRipple False True))"
proof -
  have t: "type (touch_event ''pointerenter'') = ''pointerenter''
      \<or> type (touch_event ''pointerenter'') = ''pointerleave''"
    by (simp add: touch_event_def)
  have p: "pointerType (touch_event ''pointerenter'') = ''touch''"
    by (simp add: touch_event_def)
  have h: "\<not> hovered (useRipple False True)"
    by (simp add: useRipple_def)
  from touch_never_hovers [OF t p, of "useRipple False True"] t p h
  show ?thesis by simp
qed

subsection \<open>Ripple geometry\<close>

lemma binary64_eval:
  assumes "2 powi k \<le> \<bar>x\<bar>" "\<bar>x\<bar> < 2 powi (k + 1)" "- 1022 \<le> k" "k \<le> 1022"
    "roundTiesToEven (x / 2 powi (k - 52)) = n"
  shows "binary64 x = Num (of_int n * 2 powi (k - 52))"
proof -
  have "(2::real) powi (k + 1) \<le> 2 powi 1023"
    by (rule power_int_increasing) (use assms(4) in simp_all)
  with assms(2) have "\<bar>x\<bar> \<le> 2 powi 1023" by linarith
  then have "\<bar>x\<bar> \<le> 2 ^ 1023" by (simp del: power_numeral)
  then have "binary64 x = Num (round64 x)" by (rule binary64_finite)
  also have "round64 x = of_int n * 2 powi (k - 52)"
    using round64_eval [OF assms(1,2)] assms(3,5) by (simp add: max_def)
  finally show ?thesis .
qed

text \<open>The steps of the geometry for a box 100 wide and 40 high.\<close>

lemma example_soft_edge:
  "js_max (js_mul (Num SOFT_EDGE_CONTAINER_RATIO) (Num 100)) (Num 75) = Num 75"
proof -
  have "binary64 (SOFT_EDGE_CONTAINER_RATIO * 100) = Num (of_int (35 * 2 ^ 47) * 2 powi (5 - 52))"
    unfolding SOFT_EDGE_CONTAINER_RATIO_value
    by (rule binary64_eval) (simp_all add: roundTiesToEven_def)
  then show ?thesis by simp
qed

lemma example_sqrt: "binary64 (sqrt 11600) = Num (473684105834759 / 2 ^ 42)"
proof -
  have b: "(7578945693356144 - 1 / 2) / 2 ^ 46 < sqrt 11600
      \<and> sqrt 11600 < (7578945693356144 + 1 / 2) / 2 ^ 46"
    by (rule sqrt_between) (simp_all add: power2_eq_square)
  have "roundTiesToEven (sqrt 11600 / 2 powi (6 - 52)) = 7578945693356144"
    by (rule roundTiesToEven_eqI) (use b in \<open>simp_all add: field_simps\<close>)
  then have "binary64 (sqrt 11600) = Num (of_int 7578945693356144 * 2 powi (6 - 52))"
    by (intro binary64_eval) (use b in simp_all)
  then show ?thesis by simp
qed

lemma example_scale:
  "js_divide
     (js_add
        (js_add (js_sqrt (js_add (js_mul (Num 100) (Num 100)) (js_mul (Num 40) (Num 40))))
           (Num 10))
        (js_max (js_mul (Num SOFT_EDGE_CONTAINER_RATIO) (Num 100)) (Num 75)))
     (Num 20) = Num (2712057789691517 / 2 ^ 48)"
proof -
  define S :: real where "S = 473684105834759 / 2 ^ 42"
  define R :: real where "R = 517664570945799 / 2 ^ 42"
  define T :: real where "T = 847518059278599 / 2 ^ 42"
  have "binary64 (100 * 100) = Num (of_int (10000 * 2 ^ 39) * 2 powi (13 - 52))"
    by (rule binary64_eval) (simp_all add: roundTiesToEven_def)
  then have w: "js_mul (Num 100) (Num 100) = Num 10000" by simp
  have "binary64 (40 * 40) = Num (of_int (1600 * 2 ^ 42) * 2 powi (10 - 52))"
    by (rule binary64_eval) (simp_all add: roundTiesToEven_def)
  then have h: "js_mul (Num 40) (Num 40) = Num 1600" by simp
  have "binary64 (10000 + 1600) = Num (of_int (11600 * 2 ^ 39) * 2 powi (13 - 52))"
    by (rule binary64_eval) (simp_all add: roundTiesToEven_def)
  then have c: "js_add (Num 10000) (Num 1600) = Num 11600" by simp
  have d: "js_sqrt (Num 11600) = Num S"
    by (simp add: example_sqrt S_def)
  have "binary64 (S + 10) = Num (of_int 8282633135132784 * 2 powi (6 - 52))"
    unfolding S_def by (rule binary64_eval) (simp_all add: roundTiesToEven_def)
  then have r: "js_add (Num S) (Num 10) = Num R" by (simp add: R_def)
  have "binary64 (R + 75) = Num (of_int 6780144474228792 * 2 powi (7 - 52))"
    unfolding R_def by (rule binary64_eval) (simp_all add: roundTiesToEven_def)
  then have t: "js_add (Num R) (Num 75) = Num T" by (simp add: T_def)
  have "binary64 (T / 20) = Num (of_int 5424115579383034 * 2 powi (3 - 52))"
    unfolding T_def by (rule binary64_eval) (simp_all add: roundTiesToEven_def)
  then have q: "js_divide (Num T) (Num 20) = Num (2712057789691517 / 2 ^ 48)" by simp
  show ?thesis
    by (simp only: w h c d r t q example_soft_edge)
qed

lemma example_scale_close:
  "\<bar>2712057789691517 / 2 ^ 48 - (sqrt 11600 + 10 + 75) / 20\<bar> < 1 / 2 ^ 50"
proof -
  define s where "s = sqrt 11600"
  have "1077032961426900806250142098 / 10 ^ 25 < sqrt 11600
      \<and> sqrt 11600 < 1077032961426900806250142099 / 10 ^ 25"
    by (rule sqrt_between) (simp_all add: power2_eq_square)
  then have "1077032961426900806250142098 / 10000000000000000000000000 < s"
    "s < 1077032961426900806250142099 / 10000000000000000000000000"
    by (simp_all add: s_def)
  then have "2712057789691517 / 281474976710656 - (s + 10 + 75) / 20 < 1 / 1125899906842624"
    "- (2712057789691517 / 281474976710656 - (s + 10 + 75) / 20) < 1 / 1125899906842624"
    by (simp_all add: field_simps)
  then have "\<bar>2712057789691517 / 281474976710656 - (s + 10 + 75) / 20\<bar>
      < 1 / 1125899906842624"
    unfolding abs_less_iff by blast
  then show ?thesis by (simp add: s_def)
qed

lemma wide_initial_size: "round64 (wide_width * INITIAL_ORIGIN_SCALE) = 23"
  unfolding INITIAL_ORIGIN_SCALE_value wide_width_def
  by (subst round64_eval [where k = 4]) (simp_all add: roundTiesToEven_def)

text \<open>
  How far the rounded product under \<open>Math.floor\<close> can be from the exact product with
  \<open>0.2\<close>.
\<close>

lemma roundTiesToEven_ge: "of_int N \<le> y \<Longrightarrow> N \<le> roundTiesToEven y"
proof -
  assume "of_int N \<le> y"
  then have "N \<le> \<lfloor>y\<rfloor>" by (simp add: le_floor_iff)
  moreover have "\<lfloor>y\<rfloor> \<le> roundTiesToEven y"
    by (simp add: roundTiesToEven_def Let_def)
  ultimately show ?thesis by linarith
qed

lemma round64_ge_int:
  assumes "0 \<le> n" "of_int n \<le> x" "x < 2 ^ 52"
  shows "of_int n \<le> round64 x"
proof (cases "x = 0")
  case True
  with assms show ?thesis by simp
next
  case False
  with assms have xpos: "0 < x" by simp
  define e where "e = \<lfloor>log 2 \<bar>x\<bar>\<rfloor>"
  have "(2::real) powr (of_int e) \<le> \<bar>x\<bar>"
    using False floor_log_eq_powr_iff [of "\<bar>x\<bar>" 2 e] by (simp add: e_def)
  then have le: "(2::real) powi e \<le> \<bar>x\<bar>"
    using powr_real_of_int' [of "2::real" e] by simp
  have "e < 52"
  proof (rule ccontr)
    assume "\<not> e < 52"
    then have "52 \<le> e" by simp
    then have "(2::real) powi 52 \<le> 2 powi e"
      by (rule power_int_increasing) simp
    then have "(2::real) powi 52 \<le> \<bar>x\<bar>" using le by (rule order_trans)
    with assms(3) xpos show False by simp
  qed
  define k where "k = nat (52 - max e (- 1022))"
  have k: "max e (- 1022) - 52 = - int k"
    using \<open>e < 52\<close> by (simp add: k_def)
  have r: "round64 x = of_int (roundTiesToEven (x * 2 ^ k)) / 2 ^ k"
    using False
    by (simp add: round64_def Let_def e_def [symmetric] k power_int_minus field_simps)
  have "of_int (n * 2 ^ k) \<le> x * 2 ^ k"
    using assms(2) by simp
  then have "n * 2 ^ k \<le> roundTiesToEven (x * 2 ^ k)"
    by (rule roundTiesToEven_ge)
  then have "(of_int (n * 2 ^ k) :: real) \<le> of_int (roundTiesToEven (x * 2 ^ k))"
    by (simp only: of_int_le_iff)
  then have "of_int n * 2 ^ k \<le> (of_int (roundTiesToEven (x * 2 ^ k)) :: real)"
    by simp
  then show ?thesis
    unfolding r by (simp add: field_simps)
qed

lemma scaled_below:
  fixes m :: real
  assumes "0 \<le> m" "m \<le> 1125899906842624"
  shows "m * (3602879701896397 / 18014398509481984)
           + m * (3602879701896397 / 18014398509481984) / 9007199254740992
           + 1 / 1152921504606846976 < m * (1 / 5) + 1"
  using assms by linarith

lemma initial_size_bounds:
  assumes "0 \<le> m" "m \<le> 2 ^ 50"
  shows "\<lfloor>m * 0.2\<rfloor> \<le> \<lfloor>round64 (m * INITIAL_ORIGIN_SCALE)\<rfloor>"
    and "\<lfloor>round64 (m * INITIAL_ORIGIN_SCALE)\<rfloor> \<le> \<lfloor>m * 0.2\<rfloor> + 1"
proof -
  let ?x = "m * INITIAL_ORIGIN_SCALE"
  have c: "INITIAL_ORIGIN_SCALE = 3602879701896397 / 18014398509481984"
    by (simp add: INITIAL_ORIGIN_SCALE_value)
  have x0: "0 \<le> ?x" using assms(1) by (simp add: c)
  have le: "m * 0.2 \<le> ?x" using assms(1) unfolding c by simp
  have "?x \<le> 2 ^ 50 * 1" unfolding c using assms by (intro mult_mono) simp_all
  then have lt: "?x < 2 ^ 52" by simp
  have n0: "0 \<le> \<lfloor>m * 0.2\<rfloor>" using assms(1) by simp
  have "of_int \<lfloor>m * 0.2\<rfloor> \<le> m * 0.2" by (rule of_int_floor_le)
  with le have "of_int \<lfloor>m * 0.2\<rfloor> \<le> ?x" by linarith
  with n0 have "of_int \<lfloor>m * 0.2\<rfloor> \<le> round64 ?x" using lt by (rule round64_ge_int)
  then show "\<lfloor>m * 0.2\<rfloor> \<le> \<lfloor>round64 ?x\<rfloor>" by (simp add: le_floor_iff)
  have "round64 ?x \<le> ?x + (\<bar>?x\<bar> / 2 ^ 53 + 1 / 2 ^ 60)"
    using round64_error [of ?x] by linarith
  then have "round64 ?x \<le> ?x + ?x / 9007199254740992 + 1 / 1152921504606846976"
    using x0 by simp
  moreover have "?x + ?x / 9007199254740992 + 1 / 1152921504606846976 < m * (1 / 5) + 1"
    unfolding c using assms by (intro scaled_below) simp_all
  ultimately have "round64 ?x < m * 0.2 + 1" by simp
  then have "\<lfloor>round64 ?x\<rfloor> \<le> \<lfloor>m * 0.2 + 1\<rfloor>" by (intro floor_mono) simp
  then show "\<lfloor>round64 ?x\<rfloor> \<le> \<lfloor>m * 0.2\<rfloor> + 1" by simp
qed

text \<open>
  Claim C4, as the code has it. For every surface box, whatever the state was before,
  \<open>determineRippleSize\<close> stores what the formulas give in binary64 arithmetic, each
  operation rounded to nearest: the initial diameter is the floor of the rounded product
  of \<open>max W H\<close> and the double \<open>0.2\<close> (a finite number), and the scale is the rounded
  quotient, by the initial diameter, of the rounded sum of the maximal radius
  (the rounded square root of \<open>W\<^sup>2 + H\<^sup>2\<close>, plus 10) and the soft edge (the larger of the
  rounded product of the double \<open>0.35\<close> with \<open>max W H\<close>, and 75); the divisor is \<open>-0\<close>
  when \<open>max W H\<close> is negative and the product rounds to zero. For \<open>W = 100\<close>,
  \<open>H = 40\<close> the initial diameter is 20, the soft edge is 75 and the scale is the double
  \<open>9.635164807134505\<close>, which is within \<open>2 powi - 50\<close> of \<open>(sqrt 11600 + 10 + 75) / 20\<close>.
  For a box whose larger side is between 0 and \<open>2 ^ 50\<close>, the initial diameter is the
  floor of the exact product of \<open>max W H\<close> and \<open>0.2\<close>, or one more than it.
\<close>

theorem determineRippleSize_geometry:
  "initialSizeRef (determineRippleSize el s)
     = \<lfloor>round64 (max (val (width el)) (val (height el)) * round64 0.2)\<rfloor>
   \<and> binary64 (max (val (width el)) (val (height el)) * round64 0.2)
     = Num (round64 (max (val (width el)) (val (height el)) * round64 0.2))
   \<and> rippleSizeRef (determineRippleSize el s)
     = Some \<lfloor>round64 (max (val (width el)) (val (height el)) * round64 0.2)\<rfloor>
   \<and> rippleScaleRef (determineRippleSize el s) =
       Some (if max (val (width el)) (val (height el)) < 0
               \<and> round64 (max (val (width el)) (val (height el)) * round64 0.2) = 0
         then js_divide_negzero
           (js_add
              (js_add
                 (js_sqrt (js_add (js_mul (Num (val (width el))) (Num (val (width el))))
                    (js_mul (Num (val (height el))) (Num (val (height el))))))
                 (Num 10))
              (js_max (js_mul (Num (round64 0.35)) (Num (max (val (width el)) (val (height el)))))
                 (Num 75)))
         else js_divide
           (js_add
              (js_add
                 (js_sqrt (js_add (js_mul (Num (val (width el))) (Num (val (width el))))
                    (js_mul (Num (val (height el))) (Num (val (height el))))))
                 (Num 10))
              (js_max (js_mul (Num (round64 0.35)) (Num (max (val (width el)) (val (height el)))))
                 (Num 75)))
           (Num (of_int \<lfloor>round64 (max (val (width el)) (val (height el)) * round64 0.2)\<rfloor>)))
   \<and> initialSizeRef (determineRippleSize example_surface s) = 20
   \<and> js_max (js_mul (Num (round64 0.35)) (Num (max (val (width example_surface))
         (val (height example_surface))))) (Num 75) = Num 75
   \<and> rippleScaleRef (determineRippleSize example_surface s)
     = Some (Num (2712057789691517 / 2 ^ 48))
   \<and> \<bar>2712057789691517 / 2 ^ 48 - (sqrt 11600 + 10 + 75) / 20\<bar> < 1 / 2 ^ 50
   \<and> (0 \<le> max (val (width el)) (val (height el))
        \<and> max (val (width el)) (val (height el)) \<le> 2 ^ 50 \<longrightarrow>
      \<lfloor>max (val (width el)) (val (height el)) * 0.2\<rfloor>
        \<le> initialSizeRef (determineRippleSize el s)
      \<and> initialSizeRef (determineRippleSize el s)
        \<le> \<lfloor>max (val (width el)) (val (height el)) * 0.2\<rfloor> + 1)"
proof (intro conjI)
  show "0 \<le> max (val (width el)) (val (height el))
        \<and> max (val (width el)) (val (height el)) \<le> 2 ^ 50 \<longrightarrow>
      \<lfloor>max (val (width el)) (val (height el)) * 0.2\<rfloor>
        \<le> initialSizeRef (determineRippleSize el s)
      \<and> initialSizeRef (determineRippleSize el s)
        \<le> \<lfloor>max (val (width el)) (val (height el)) * 0.2\<rfloor> + 1"
  proof
    assume a: "0 \<le> max (val (width el)) (val (height el))
        \<and> max (val (width el)) (val (height el)) \<le> 2 ^ 50"
    have i: "initialSizeRef (determineRippleSize el s)
        = \<lfloor>round64 (max (val (width el)) (val (height el)) * INITIAL_ORIGIN_SCALE)\<rfloor>"
      by (simp add: determineRippleSize_def Let_def max.commute [of "val (height el)"])
    from a initial_size_bounds [of "max (val (width el)) (val (height el))"]
    show "\<lfloor>max (val (width el)) (val (height el)) * 0.2\<rfloor>
        \<le> initialSizeRef (determineRippleSize el s)
      \<and> initialSizeRef (determineRippleSize el s)
        \<le> \<lfloor>max (val (width el)) (val (height el)) * 0.2\<rfloor> + 1"
      unfolding i by blast
  qed
  show "binary64 (max (val (width el)) (val (height el)) * round64 0.2)
     = Num (round64 (max (val (width el)) (val (height el)) * round64 0.2))"
    using initial_size_finite [of "width el" "height el"]
    unfolding INITIAL_ORIGIN_SCALE_def .
  show "initialSizeRef (determineRippleSize example_surface s) = 20"
    by (simp add: determineRippleSize_def Let_def example_surface_def val_examples)
  show "rippleScaleRef (determineRippleSize example_surface s)
     = Some (Num (2712057789691517 / 2 ^ 48))"
    using example_scale
    by (simp add: determineRippleSize_def Let_def example_surface_def val_examples
        PADDING_def SOFT_EDGE_MINIMUM_SIZE_def
        del: js_add.simps js_mul.simps js_divide.simps js_sqrt.simps js_max.simps)
  show "js_max (js_mul (Num (round64 0.35)) (Num (max (val (width example_surface))
         (val (height example_surface))))) (Num 75) = Num 75"
    using example_soft_edge
    unfolding SOFT_EDGE_CONTAINER_RATIO_def
    by (simp add: example_surface_def val_examples del: js_mul.simps js_max.simps)
  show "\<bar>2712057789691517 / 2 ^ 48 - (sqrt 11600 + 10 + 75) / 20\<bar> < 1 / 2 ^ 50"
    by (rule example_scale_close)
qed (simp_all add: determineRippleSize_def Let_def INITIAL_ORIGIN_SCALE_def
    SOFT_EDGE_CONTAINER_RATIO_def PADDING_def SOFT_EDGE_MINIMUM_SIZE_def
    max.commute [of "val (height el)"]
    del: js_add.simps js_mul.simps js_divide.simps js_divide_negzero.simps js_sqrt.simps
      js_max.simps)

theorem determineRippleSize_geometry_witness:
  "0 \<le> max (val (width wide_surface)) (val (height wide_surface))
   \<and> max (val (width wide_surface)) (val (height wide_surface)) \<le> 2 ^ 50
   \<and> \<lfloor>max (val (width wide_surface)) (val (height wide_surface)) * 0.2\<rfloor>
        \<le> initialSizeRef (determineRippleSize wide_surface (useRipple False True))
   \<and> initialSizeRef (determineRippleSize wide_surface (useRipple False True))
        \<le> \<lfloor>max (val (width wide_surface)) (val (height wide_surface)) * 0.2\<rfloor> + 1
   \<and> initialSizeRef (determineRippleSize wide_surface (useRipple False True))
     = \<lfloor>round64 (max (val (width wide_surface)) (val (height wide_surface)) * round64 0.2)\<rfloor>
   \<and> initialSizeRef (determineRippleSize example_surface (useRipple False True)) = 20
   \<and> rippleScaleRef (determineRippleSize example_surface (useRipple False True))
     = Some (Num (2712057789691517 / 2 ^ 48))"
proof -
  have w: "val (width wide_surface) = wide_width" "val (height wide_surface) = 0"
    by (simp_all add: wide_surface_def val_examples)
  have h: "0 \<le> max (val (width wide_surface)) (val (height wide_surface))"
    "max (val (width wide_surface)) (val (height wide_surface)) \<le> 2 ^ 50"
    unfolding w by (simp_all add: wide_width_def)
  from determineRippleSize_geometry [of wide_surface "useRipple False True"] h
  show ?thesis by blast
qed

text \<open>
  Claim C4 as stated fails: the initial diameter is not the floor of the exact product.
  For the box whose width is the double \<open>114.99999999999999\<close> the code stores 23, and the
  floor of the width times \<open>0.2\<close> is 22.
\<close>

theorem determineRippleSize_geometry_counterexample:
  "val (width wide_surface) = 8092405580431359 / 2 ^ 46
   \<and> val (height wide_surface) = 0
   \<and> initialSizeRef (determineRippleSize wide_surface (useRipple False True)) = 23
   \<and> \<lfloor>max (val (width wide_surface)) (val (height wide_surface)) * 0.2\<rfloor> = (22::int)"
proof -
  have w: "val (width wide_surface) = wide_width" "val (height wide_surface) = 0"
    by (simp_all add: wide_surface_def val_examples)
  have m: "max 0 wide_width = wide_width" "max wide_width 0 = wide_width"
    by (simp_all add: wide_width_def)
  have i: "initialSizeRef (determineRippleSize wide_surface (useRipple False True)) = 23"
    by (simp add: determineRippleSize_def Let_def w m wide_initial_size)
  have f: "\<lfloor>max (val (width wide_surface)) (val (height wide_surface)) * 0.2\<rfloor> = (22::int)"
    unfolding w m by (simp add: wide_width_def)
  have "val (width wide_surface) = 8092405580431359 / 2 ^ 46"
    unfolding w wide_width_def ..
  with w(2) i f show ?thesis by blast
qed

lemma binary64_approx:
  assumes "0 \<le> x" "x \<le> 2 ^ 60"
  shows "binary64 x = Num (round64 x)" "0 \<le> round64 x" "round64 x \<le> 2 * x + 1"
    "x \<le> 2 * round64 x + 1"
proof -
  have "(2::real) ^ 60 \<le> 2 ^ 1023" by (rule power_increasing) simp_all
  with assms(2) have "x \<le> 2 ^ 1023" by (rule order_trans)
  moreover have "\<bar>x\<bar> = x" using assms(1) by simp
  ultimately have "\<bar>x\<bar> \<le> 2 ^ 1023" by (simp only:)
  then show "binary64 x = Num (round64 x)" by (rule binary64_finite)
  have "x / 2 ^ 53 \<le> x / 2" using assms(1) by (simp add: field_simps)
  moreover have "(1::real) / 2 ^ 60 \<le> 1 / 2" by simp
  ultimately have "\<bar>round64 x - x\<bar> \<le> x / 2 + 1 / 2"
    using round64_error [of x] assms(1) by linarith
  then show "round64 x \<le> 2 * x + 1" "x \<le> 2 * round64 x + 1"
    using assms(1) by linarith+
  show "0 \<le> round64 x" by (rule round64_nonneg [OF assms(1)])
qed

lemma double_below_5:
  assumes "is_binary64 m" "0 \<le> m" "m < 5"
  shows "m \<le> 5 - 1 / 2 ^ 50"
proof (cases "m < 4")
  case True
  then show ?thesis by simp
next
  case False
  with assms have k: "2 powi 2 \<le> \<bar>m\<bar>" "\<bar>m\<bar> < 2 powi (2 + 1)" by simp_all
  define n where "n = roundTiesToEven (m / 2 powi (max 2 (- 1022) - 52))"
  from round64_eval [OF k] assms(1) have "m = of_int n / 2 ^ 50"
    by (simp add: is_binary64_def n_def)
  with assms(3) have "of_int n < (5 * 2 ^ 50 :: real)" by (simp add: field_simps)
  then have "(of_int n :: real) < of_int (5 * 2 ^ 50)" by simp
  then have "n < 5 * 2 ^ 50" by (simp only: of_int_less_iff)
  then have "n \<le> 5 * 2 ^ 50 - 1" by simp
  then have "(of_int n :: real) \<le> of_int (5 * 2 ^ 50 - 1)" by (simp only: of_int_le_iff)
  then have "(of_int n :: real) \<le> 5 * 2 ^ 50 - 1" by simp
  with \<open>m = of_int n / 2 ^ 50\<close> show ?thesis by (simp add: field_simps)
qed

lemma below_one:
  fixes x :: real
  assumes "x \<le> 20282409603651667946967456232243 / 2 ^ 104"
  shows "x + x / 2 ^ 53 + 1 / 2 ^ 60 < 1"
proof -
  from assms have "x \<le> 20282409603651667946967456232243 / 20282409603651670423947251286016"
    by simp
  then have "x + x / 9007199254740992 + 1 / 1152921504606846976 < 1" by linarith
  then show ?thesis by simp
qed

lemma initial_size_zero:
  assumes "is_binary64 m" "0 \<le> m" "m < 5"
  shows "\<lfloor>round64 (m * INITIAL_ORIGIN_SCALE)\<rfloor> = 0"
proof -
  let ?x = "m * INITIAL_ORIGIN_SCALE"
  have c: "INITIAL_ORIGIN_SCALE = 3602879701896397 / 2 ^ 54"
    by (rule INITIAL_ORIGIN_SCALE_value)
  have x0: "0 \<le> ?x" using assms(2) by (simp add: c)
  have "?x \<le> (5 - 1 / 2 ^ 50) * (3602879701896397 / 2 ^ 54)"
    unfolding c using double_below_5 [OF assms] by (intro mult_right_mono) simp_all
  also have "\<dots> = 20282409603651667946967456232243 / 2 ^ 104" by simp
  finally have "?x \<le> 20282409603651667946967456232243 / 2 ^ 104" .
  then have "?x + ?x / 2 ^ 53 + 1 / 2 ^ 60 < 1" by (rule below_one)
  moreover have "round64 ?x \<le> ?x + (\<bar>?x\<bar> / 2 ^ 53 + 1 / 2 ^ 60)"
    using round64_error [of ?x] by linarith
  ultimately have "round64 ?x < 1" using x0 by simp
  with round64_nonneg [OF x0] show ?thesis by linarith
qed

lemma scale_infinite:
  assumes "is_binary64 w" "is_binary64 h" "0 \<le> w" "0 \<le> h" "max h w < 5"
  shows "js_divide
           (js_add
              (js_add (js_sqrt (js_add (js_mul (Num w) (Num w)) (js_mul (Num h) (Num h))))
                 (Num PADDING))
              (js_max (js_mul (Num SOFT_EDGE_CONTAINER_RATIO) (Num (max h w)))
                 (Num SOFT_EDGE_MINIMUM_SIZE)))
           (Num 0) = PosInfinity"
proof -
  have w: "0 \<le> w * w" "w * w \<le> 2 ^ 60" "w * w \<le> 25"
    using assms(3,5) mult_mono [of w 5 w 5] by simp_all
  have h: "0 \<le> h * h" "h * h \<le> 2 ^ 60" "h * h \<le> 25"
    using assms(4,5) mult_mono [of h 5 h 5] by simp_all
  define a where "a = round64 (w * w)"
  define b where "b = round64 (h * h)"
  note a = binary64_approx(1-3) [OF w(1,2), folded a_def]
  note b = binary64_approx(1-3) [OF h(1,2), folded b_def]
  have ab: "0 \<le> a + b" "a + b \<le> 2 ^ 60" "a + b \<le> 102"
    using a b w h by simp_all
  define c where "c = round64 (a + b)"
  note c = binary64_approx(1-3) [OF ab(1,2), folded c_def]
  have "sqrt c \<le> c + 1"
    using c(2) by (intro real_le_lsqrt) (simp_all add: power2_eq_square algebra_simps)
  with c ab have s: "0 \<le> sqrt c" "sqrt c \<le> 2 ^ 60" "sqrt c \<le> 206" by simp_all
  define d where "d = round64 (sqrt c)"
  note d = binary64_approx(1-3) [OF s(1,2), folded d_def]
  have d10: "0 \<le> d + 10" "d + 10 \<le> 2 ^ 60" using d s by simp_all
  define r where "r = round64 (d + 10)"
  note r = binary64_approx [OF d10, folded r_def]
  have m: "0 \<le> max h w" using assms(3) by simp
  have "SOFT_EDGE_CONTAINER_RATIO * max h w \<le> 1 / 2 * 5"
    using m assms(5) by (intro mult_mono) (simp_all add: SOFT_EDGE_CONTAINER_RATIO_value)
  then have e: "0 \<le> SOFT_EDGE_CONTAINER_RATIO * max h w"
    "SOFT_EDGE_CONTAINER_RATIO * max h w \<le> 2 ^ 60"
    "SOFT_EDGE_CONTAINER_RATIO * max h w \<le> 3"
    using m by (simp_all add: SOFT_EDGE_CONTAINER_RATIO_value)
  define y where "y = round64 (SOFT_EDGE_CONTAINER_RATIO * max h w)"
  note y = binary64_approx(1-3) [OF e(1,2), folded y_def]
  with e have y75: "max y 75 = 75" by simp
  have r75: "0 \<le> r + 75" "r + 75 \<le> 2 ^ 60" using r d s by simp_all
  define t where "t = round64 (r + 75)"
  note t = binary64_approx [OF r75, folded t_def]
  with r have "0 < t" by simp
  then show ?thesis
    using c(2)
    by (simp add: a(1) b(1) c(1) d(1) r(1) y(1) y75 t(1) PADDING_def
        SOFT_EDGE_MINIMUM_SIZE_def)
qed

text \<open>
  Claim C9. For a surface box with non-negative sides whose larger side is below 5 (a
  0 by 0 box among them), \<open>determineRippleSize\<close> stores the initial diameter 0, and the
  division by it gives \<open>Infinity\<close>, which is not a finite number. Nothing guards the case:
  \<open>startPressAnimation\<close> passes that scale on to the animation it creates.
\<close>

theorem zero_initial_diameter:
  "0 \<le> val (width el) \<Longrightarrow> 0 \<le> val (height el) \<Longrightarrow>
   max (val (width el)) (val (height el)) < 5 \<Longrightarrow>
     initialSizeRef (determineRippleSize el s) = 0
     \<and> rippleSizeRef (determineRippleSize el s) = Some 0
     \<and> rippleScaleRef (determineRippleSize el s) = Some PosInfinity
     \<and> \<not> isFinite PosInfinity
     \<and> (isBrowser s \<and> surfaceRef s = Some el \<longrightarrow>
          keyframeScale (animations (startPressAnimation ev s) ! length (animations s))
            = Some PosInfinity)"
proof -
  assume a: "0 \<le> val (width el)" "0 \<le> val (height el)"
    "max (val (width el)) (val (height el)) < 5"
  have m: "is_binary64 (max (val (height el)) (val (width el)))"
    "0 \<le> max (val (height el)) (val (width el))" "max (val (height el)) (val (width el)) < 5"
    using a by (simp_all add: max.commute [of "val (height el)"] is_binary64_val,
      simp add: max_def is_binary64_val)
  have f: "initialSize el = 0"
    by (rule initial_size_zero [OF m])
  have p: "js_divide
           (js_add
              (js_add (js_sqrt (js_add (js_mul (Num (val (width el))) (Num (val (width el))))
                 (js_mul (Num (val (height el))) (Num (val (height el))))))
                 (Num PADDING))
              (js_max (js_mul (Num SOFT_EDGE_CONTAINER_RATIO)
                   (Num (max (val (height el)) (val (width el)))))
                 (Num SOFT_EDGE_MINIMUM_SIZE)))
           (Num 0) = PosInfinity"
    by (rule scale_infinite) (use a m in \<open>simp_all add: is_binary64_val\<close>)
  have d: "determineRippleSize el s' =
      s'\<lparr>initialSizeRef := 0, rippleScaleRef := Some PosInfinity, rippleSizeRef := Some 0\<rparr>"
    for s'
    using f p a(1,2)
    by (simp add: determineRippleSize_def Let_def
        del: js_add.simps js_mul.simps js_divide.simps js_divide_negzero.simps js_sqrt.simps
          js_max.simps)
  show ?thesis
    by (auto simp: d isFinite_def startPressAnimation_def Let_def cancel_def animate_def
        nth_append split: prod.splits option.splits)
qed

theorem zero_initial_diameter_witness:
  "0 \<le> val (width hidden_surface) \<and> 0 \<le> val (height hidden_surface)
   \<and> max (val (width hidden_surface)) (val (height hidden_surface)) < 5
   \<and> isBrowser (step (Attach (Some hidden_surface)) (useRipple False True))
   \<and> surfaceRef (step (Attach (Some hidden_surface)) (useRipple False True))
       = Some hidden_surface
   \<and> initialSizeRef (determineRippleSize hidden_surface
         (step (Attach (Some hidden_surface)) (useRipple False True))) = 0
   \<and> rippleScaleRef (determineRippleSize hidden_surface
         (step (Attach (Some hidden_surface)) (useRipple False True))) = Some PosInfinity
   \<and> keyframeScale (animations (startPressAnimation None
         (step (Attach (Some hidden_surface)) (useRipple False True))) ! 0)
       = Some PosInfinity"
proof -
  have h: "0 \<le> val (width hidden_surface)" "0 \<le> val (height hidden_surface)"
    "max (val (width hidden_surface)) (val (height hidden_surface)) < 5"
    by (simp_all add: hidden_surface_def val_examples)
  have a: "isBrowser (step (Attach (Some hidden_surface)) (useRipple False True))"
    "surfaceRef (step (Attach (Some hidden_surface)) (useRipple False True))
       = Some hidden_surface"
    "animations (step (Attach (Some hidden_surface)) (useRipple False True)) = []"
    by (simp_all add: useRipple_def)
  from zero_initial_diameter
    [OF h, of "step (Attach (Some hidden_surface)) (useRipple False True)" None] h a
  show ?thesis by simp
qed

subsection \<open>Disabled controller\<close>

lemma disabled_idle_step: "disabled_idle s \<Longrightarrow> disabled_idle (step i s)"
  by (cases i)
     (auto simp: disabled_idle_def onPointerEnter_def onPointerLeave_def onPointerDown_def
        onPointerUp_def onPointerCancel_def onClick_def shouldReactToEvent_def fire_def)

lemma disabled_idle_run: "disabled_idle s \<Longrightarrow> disabled_idle (run ins s)"
  by (induction ins arbitrary: s) (simp_all add: disabled_idle_step)

text \<open>
  Claim C8. From the initial state of a controller made with \<open>disabled = true\<close>, after
  every sequence of inputs (calls of the six handlers, and whatever else can happen to the
  hook), \<open>hovered\<close> and \<open>pressed\<close> are false.
\<close>

theorem disabled_short_circuit:
  "\<not> hovered (run ins (useRipple True b)) \<and> \<not> pressed (run ins (useRipple True b))"
proof -
  have "disabled_idle (useRipple True b)"
    by (simp add: disabled_idle_def useRipple_def)
  then have "disabled_idle (run ins (useRipple True b))"
    by (rule disabled_idle_run)
  then show ?thesis by (simp add: disabled_idle_def)
qed

theorem disabled_short_circuit_witness:
  "disabled (useRipple True True)
   \<and> \<not> hovered (run (PointerEnter (mouse_event ''pointerenter'') # quick_click) (useRipple True True))
   \<and> \<not> pressed (run (PointerEnter (mouse_event ''pointerenter'') # quick_click) (useRipple True True))"
  using disabled_short_circuit
    [of "PointerEnter (mouse_event ''pointerenter'') # quick_click" True]
  by (simp add: useRipple_def)

subsection \<open>Ownership of the session\<close>

text \<open>
  Claim C10. \<open>endPressAnimation\<close> has cleared the origin event and set the phase to
  \<open>INACTIVE\<close> when it returns, whether or not it scheduled the minimum-press wait. In the
  state it returns, \<open>shouldReactToEvent\<close> no longer looks at the event's \<open>pointerId\<close>.
  When the wait was scheduled, \<open>pressed\<close> is as before and the wait is pending, and an
  admissible \<open>pointerdown\<close> of any pointer is accepted: it becomes the origin event and
  the phase leaves \<open>INACTIVE\<close>.
\<close>

theorem release_frees_ownership:
  "rippleStartEventRef (endPressAnimation s) = None
   \<and> stateRef (endPressAnimation s) = INACTIVE
   \<and> (shouldReactToEvent e (endPressAnimation s) \<longleftrightarrow>
        \<not> disabled s \<and> isPrimary e
        \<and> (if type e = ''pointerenter'' \<or> type e = ''pointerleave''
           then pointerType e \<noteq> ''touch''
           else pointerType e = ''touch'' \<or> buttons e = 1))
   \<and> (\<forall>ct. animation_currentTime (growAnimationRef s) s = Some ct \<and> ct < 225 \<longrightarrow>
        pressed (endPressAnimation s) = pressed s
        \<and> timers (endPressAnimation s) =
            timers s @ [(now s + (225 - ct), MinimumPressResume (growAnimationRef s))]
        \<and> (shouldReactToEvent e (endPressAnimation s) \<longrightarrow>
             rippleStartEventRef (onPointerDown e (endPressAnimation s)) = Some e
             \<and> stateRef (onPointerDown e (endPressAnimation s)) =
                 (if pointerType e = ''touch'' then TOUCH_DELAY else WAITING_FOR_CLICK)))"
proof (intro conjI allI impI)
  show "shouldReactToEvent e (endPressAnimation s) \<longleftrightarrow>
        \<not> disabled s \<and> isPrimary e
        \<and> (if type e = ''pointerenter'' \<or> type e = ''pointerleave''
           then pointerType e \<noteq> ''touch''
           else pointerType e = ''touch'' \<or> buttons e = 1)"
    by (simp add: shouldReactToEvent_def isTouch_def)
next
  fix ct
  assume "shouldReactToEvent e (endPressAnimation s)"
  then show "rippleStartEventRef (onPointerDown e (endPressAnimation s)) = Some e"
    "stateRef (onPointerDown e (endPressAnimation s)) =
       (if pointerType e = ''touch'' then TOUCH_DELAY else WAITING_FOR_CLICK)"
    by (simp_all add: onPointerDown_def Let_def isTouch_def setTimeout_def)
qed (auto simp: endPressAnimation_cases MINIMUM_PRESS_MS_def split: option.splits)

theorem release_frees_ownership_witness:
  "animation_currentTime (growAnimationRef (run held_press (useRipple False True)))
        (run held_press (useRipple False True)) = Some 50
   \<and> rippleStartEventRef (run held_press (useRipple False True))
       = Some (mouse_event ''pointerdown'')
   \<and> pointerId (touch_event ''pointerdown'') \<noteq> pointerId (mouse_event ''pointerdown'')
   \<and> shouldReactToEvent (touch_event ''pointerdown'')
       (endPressAnimation (run held_press (useRipple False True)))
   \<and> pressed (endPressAnimation (run held_press (useRipple False True)))
   \<and> rippleStartEventRef (onPointerDown (touch_event ''pointerdown'')
         (endPressAnimation (run held_press (useRipple False True))))
       = Some (touch_event ''pointerdown'')
   \<and> stateRef (onPointerDown (touch_event ''pointerdown'')
         (endPressAnimation (run held_press (useRipple False True)))) = TOUCH_DELAY"
proof -
  have c: "animation_currentTime (growAnimationRef (run held_press (useRipple False True)))
        (run held_press (useRipple False True)) = Some 50"
    by (simp add: ripple_defs)
  have o: "rippleStartEventRef (run held_press (useRipple False True))
       = Some (mouse_event ''pointerdown'')"
    "pressed (run held_press (useRipple False True))"
    "\<not> disabled (run held_press (useRipple False True))"
    by (simp_all add: ripple_defs)
  have e: "pointerId (touch_event ''pointerdown'') \<noteq> pointerId (mouse_event ''pointerdown'')"
    "isPrimary (touch_event ''pointerdown'')" "pointerType (touch_event ''pointerdown'') = ''touch''"
    "type (touch_event ''pointerdown'') = ''pointerdown''"
    by (simp_all add: mouse_event_def touch_event_def)
  from release_frees_ownership
    [of "run held_press (useRipple False True)" "touch_event ''pointerdown''"] c o e
  show ?thesis by simp
qed

subsection \<open>Ownership of the grow animation\<close>

lemma fresh_handle_startPressAnimation:
  "fresh_handle n s \<Longrightarrow> fresh_handle n (startPressAnimation event s)"
  by (cases "isBrowser s \<and> surfaceRef s \<noteq> None")
     (auto simp: startPressAnimation_skipped startPressAnimation_started fresh_handle_def)

lemma fresh_handle_irrelevant [simp]:
  "fresh_handle n (s\<lparr>hovered := x\<rparr>) = fresh_handle n s"
  "fresh_handle n (s\<lparr>stateRef := y\<rparr>) = fresh_handle n s"
  "fresh_handle n (s\<lparr>rippleStartEventRef := z\<rparr>) = fresh_handle n s"
  "fresh_handle n (s\<lparr>surfaceRef := el\<rparr>) = fresh_handle n s"
  "fresh_handle n (s\<lparr>scrollX := sx\<rparr>) = fresh_handle n s"
  "fresh_handle n (s\<lparr>scrollY := sy\<rparr>) = fresh_handle n s"
  "fresh_handle n (s\<lparr>now := t\<rparr>) = fresh_handle n s"
  "fresh_handle n (s\<lparr>timers := ts\<rparr>) = fresh_handle n s"
  "fresh_handle n (s\<lparr>pressed := p\<rparr>) = fresh_handle n s"
  by (simp_all add: fresh_handle_def)

lemma fresh_handle_endPressAnimation:
  "fresh_handle n (endPressAnimation s) = fresh_handle n s"
  by (simp add: fresh_handle_def)

lemma fresh_handle_step: "fresh_handle n s \<Longrightarrow> fresh_handle n (step i s)"
  by (cases i)
     (auto simp: onPointerEnter_def onPointerLeave_def onPointerDown_def onPointerUp_def
        onPointerCancel_def onClick_def fire_def Let_def setTimeout_def resume_def
        touchDelayResume_def minimumPressResume_def fresh_handle_endPressAnimation
        fresh_handle_startPressAnimation split: Continuation.splits)

lemma fresh_handle_run: "fresh_handle n s \<Longrightarrow> fresh_handle n (run ins s)"
  by (induction ins arbitrary: s) (simp_all add: fresh_handle_step)

lemma startPressAnimation_handle:
  "growAnimationRef (startPressAnimation event s) = growAnimationRef s
   \<or> fresh_handle (length (animations s)) (startPressAnimation event s)"
  by (cases "isBrowser s \<and> surfaceRef s \<noteq> None")
     (auto simp: startPressAnimation_skipped startPressAnimation_started fresh_handle_def)

lemma step_handle:
  "growAnimationRef (step i s) = growAnimationRef s
   \<or> fresh_handle (length (animations s)) (step i s)"
proof (cases i)
  case (PointerDown e)
  with startPressAnimation_handle
    [of "Some e" "s\<lparr>rippleStartEventRef := Some e, stateRef := WAITING_FOR_CLICK\<rparr>"]
  show ?thesis by (auto simp: onPointerDown_def Let_def setTimeout_def)
next
  case (PointerUp e)
  with startPressAnimation_handle [of "rippleStartEventRef s" "s\<lparr>stateRef := WAITING_FOR_CLICK\<rparr>"]
  show ?thesis by (auto simp: onPointerUp_def)
next
  case Click
  with startPressAnimation_handle [of None s]
  show ?thesis by (auto simp: onClick_def fresh_handle_endPressAnimation)
next
  case (Timeout k)
  show ?thesis
  proof (cases "k < length (timers s) \<and> fst (timers s ! k) \<le> now s")
    case False
    with Timeout show ?thesis by (auto simp: fire_def)
  next
    case True
    show ?thesis
    proof (cases "snd (timers s ! k)")
      case (TouchDelayResume e)
      with Timeout True startPressAnimation_handle
        [of "Some e" "s\<lparr>timers := take k (timers s) @ drop (Suc k) (timers s), stateRef := HOLDING\<rparr>"]
      show ?thesis by (auto simp: fire_def resume_def touchDelayResume_def)
    next
      case (MinimumPressResume a)
      with Timeout True show ?thesis by (auto simp: fire_def resume_def minimumPressResume_def)
    qed
  qed
qed (auto simp: onPointerEnter_def onPointerLeave_def onPointerCancel_def Let_def)

lemma stale_release:
  assumes "handles_ok s" "(due, MinimumPressResume a) \<in> set (timers s)"
    "fresh_handle (length (animations s)) s'"
  shows "growAnimationRef s' \<noteq> a"
proof (cases a)
  case None
  with assms(3) show ?thesis by (auto simp: fresh_handle_def)
next
  case (Some h)
  with assms(1,2) have "h < length (animations s)"
    by (auto simp: handles_ok_def)
  with assms(3) Some show ?thesis by (auto simp: fresh_handle_def)
qed

text \<open>
  Claim C2, as the code has it. A call of \<open>startPressAnimation\<close> that passes its two
  guards (a browser, a surface attached) sets \<open>pressed\<close>, cancels the animation of the
  current handle, and installs a new handle that no earlier animation has; a call that
  fails a guard changes nothing. The completion of the minimum-press wait sets \<open>pressed\<close>
  to false exactly when the handle it captured is the current one. Hence, along every
  sequence of inputs from the initial state: once an input has installed a new handle,
  the completion of a wait that was pending before that input never changes the state,
  whatever happens in between.
\<close>

theorem exclusive_ownership:
  "(isBrowser s \<and> surfaceRef s = Some el \<longrightarrow>
      pressed (startPressAnimation ev s)
      \<and> growAnimationRef (startPressAnimation ev s) = Some (length (animations s))
      \<and> length (animations (startPressAnimation ev s)) = Suc (length (animations s))
      \<and> \<not> cancelled (animations (startPressAnimation ev s) ! length (animations s))
      \<and> (\<forall>g. growAnimationRef s = Some g \<and> g < length (animations s) \<longrightarrow>
            cancelled (animations (startPressAnimation ev s) ! g)))
   \<and> (\<not> isBrowser s \<or> surfaceRef s = None \<longrightarrow> startPressAnimation ev s = s)
   \<and> minimumPressResume a s = (if growAnimationRef s = a then s\<lparr>pressed := False\<rparr> else s)
   \<and> ((due, MinimumPressResume a) \<in> set (timers (run pre (useRipple d b)))
        \<and> growAnimationRef (step i (run pre (useRipple d b)))
            \<noteq> growAnimationRef (run pre (useRipple d b))
      \<longrightarrow> growAnimationRef (run post (step i (run pre (useRipple d b)))) \<noteq> a
        \<and> minimumPressResume a (run post (step i (run pre (useRipple d b))))
            = run post (step i (run pre (useRipple d b))))"
proof (intro conjI impI)
  assume g: "isBrowser s \<and> surfaceRef s = Some el"
  then have g': "isBrowser s" "surfaceRef s = Some el" by simp_all
  note st = startPressAnimation_started [OF g', where event = ev]
  show "pressed (startPressAnimation ev s)"
    "growAnimationRef (startPressAnimation ev s) = Some (length (animations s))"
    "length (animations (startPressAnimation ev s)) = Suc (length (animations s))"
    "\<not> cancelled (animations (startPressAnimation ev s) ! length (animations s))"
    by (rule st)+
  show "\<forall>g. growAnimationRef s = Some g \<and> g < length (animations s) \<longrightarrow>
            cancelled (animations (startPressAnimation ev s) ! g)"
    using st(12) by blast
next
  assume "\<not> isBrowser s \<or> surfaceRef s = None"
  then show "startPressAnimation ev s = s" by (rule startPressAnimation_skipped)
next
  show "minimumPressResume a s = (if growAnimationRef s = a then s\<lparr>pressed := False\<rparr> else s)"
    by (simp add: minimumPressResume_def)
next
  let ?s = "run pre (useRipple d b)"
  assume a: "(due, MinimumPressResume a) \<in> set (timers ?s)
        \<and> growAnimationRef (step i ?s) \<noteq> growAnimationRef ?s"
  have ok: "handles_ok ?s" by (simp add: handles_ok_run handles_ok_useRipple)
  from a step_handle [of i ?s] have "fresh_handle (length (animations ?s)) (step i ?s)"
    by simp
  then have "fresh_handle (length (animations ?s)) (run post (step i ?s))"
    by (rule fresh_handle_run)
  with ok a show ne: "growAnimationRef (run post (step i ?s)) \<noteq> a"
    using stale_release by blast
  then show "minimumPressResume a (run post (step i ?s)) = run post (step i ?s)"
    by (simp add: minimumPressResume_def)
qed

theorem exclusive_ownership_witness:
  "isBrowser mounted \<and> surfaceRef mounted = Some example_surface
   \<and> growAnimationRef (startPressAnimation None mounted) = Some 0
   \<and> (225, MinimumPressResume (Some 0)) \<in> set (timers (run quick_click (useRipple False True)))
   \<and> growAnimationRef (step (PointerDown (mouse_event ''pointerdown''))
         (run quick_click (useRipple False True)))
       \<noteq> growAnimationRef (run quick_click (useRipple False True))
   \<and> growAnimationRef (run [Timeout 0] (step (PointerDown (mouse_event ''pointerdown''))
         (run quick_click (useRipple False True)))) \<noteq> Some 0
   \<and> pressed (run [Timeout 0] (step (PointerDown (mouse_event ''pointerdown''))
         (run quick_click (useRipple False True))))
   \<and> surfaceRef (useRipple False True) = None
   \<and> startPressAnimation None (useRipple False True) = useRipple False True"
proof -
  have m: "isBrowser mounted" "surfaceRef mounted = Some example_surface"
    "animations mounted = []" "surfaceRef (useRipple False True) = None"
    by (simp_all add: mounted_def useRipple_def)
  have t: "(225, MinimumPressResume (Some 0)) \<in> set (timers (run quick_click (useRipple False True)))"
    by (simp add: ripple_defs)
  have n: "growAnimationRef (step (PointerDown (mouse_event ''pointerdown''))
         (run quick_click (useRipple False True)))
       \<noteq> growAnimationRef (run quick_click (useRipple False True))"
    by (simp add: ripple_defs)
  have p: "pressed (run [Timeout 0] (step (PointerDown (mouse_event ''pointerdown''))
         (run quick_click (useRipple False True))))"
    by (simp add: ripple_defs)
  from m t n p
    exclusive_ownership [where s = mounted and el = example_surface and ev = None
      and due = 225 and a = "Some 0" and pre = quick_click and d = False and b = True
      and i = "PointerDown (mouse_event ''pointerdown'')" and post = "[Timeout 0]"]
    exclusive_ownership [where s = "useRipple False True" and ev = None]
  show ?thesis by simp
qed

text \<open>
  Claim C2 as stated fails. A call of \<open>startPressAnimation\<close> while the surface is not
  attached neither cancels the animation in flight nor installs a handle. And a newer
  press that is a touch installs its handle only when the touch delay has passed or the
  touch is released: 125 ms after the touch went down, the wait of the earlier press
  still sets \<open>pressed\<close> to false.
\<close>

theorem exclusive_ownership_counterexample:
  "growAnimationRef (run detached_press (useRipple False True)) = Some 0
   \<and> startPressAnimation None (run detached_press (useRipple False True))
       = run detached_press (useRipple False True)
   \<and> \<not> cancelled (animations (startPressAnimation None
         (run detached_press (useRipple False True))) ! 0)
   \<and> growAnimationRef (startPressAnimation None (useRipple False True)) = None
   \<and> timers (run touch_after_release (useRipple False True))
       = [(225, MinimumPressResume (Some 0)),
          (250, TouchDelayResume (touch_event ''pointerdown''))]
   \<and> rippleStartEventRef (run touch_after_release (useRipple False True))
       = Some (touch_event ''pointerdown'')
   \<and> stateRef (run touch_after_release (useRipple False True)) = TOUCH_DELAY
   \<and> pressed (run touch_after_release (useRipple False True))
   \<and> \<not> pressed (step (Timeout 0) (run touch_after_release (useRipple False True)))"
  by (simp add: ripple_defs)

subsection \<open>Touch delay\<close>

lemma touch_pointerdown:
  assumes "pointerType e = ''touch''" "shouldReactToEvent e s"
  shows "onPointerDown e s =
           s\<lparr>rippleStartEventRef := Some e, stateRef := TOUCH_DELAY,
             timers := timers s @ [(now s + 150, TouchDelayResume e)]\<rparr>"
  using assms
  by (simp add: onPointerDown_def Let_def isTouch_def setTimeout_def TOUCH_DELAY_MS_def)

lemma touch_release:
  assumes "stateRef r = TOUCH_DELAY" "rippleStartEventRef r = Some e" "shouldReactToEvent u r"
  shows "onPointerUp u r = startPressAnimation (Some e) (r\<lparr>stateRef := WAITING_FOR_CLICK\<rparr>)"
  using assms by (simp add: onPointerUp_def)

lemma touch_delay_fires:
  assumes "stateRef r = TOUCH_DELAY" "k < length (timers r)"
    "timers r ! k = (due, TouchDelayResume e)" "due \<le> now r"
  shows "step (Timeout k) r =
           startPressAnimation (Some e)
             (r\<lparr>timers := take k (timers r) @ drop (Suc k) (timers r), stateRef := HOLDING\<rparr>)"
  using assms by (simp add: fire_def resume_def touchDelayResume_def)

lemma press_from_event:
  assumes "isBrowser r" "surfaceRef r = Some el"
  shows "pressed (startPressAnimation (Some e) r)
     \<and> growAnimationRef (startPressAnimation (Some e) r) = Some (length (animations r))
     \<and> startTime (animations (startPressAnimation (Some e) r) ! length (animations r)) = now r
     \<and> translateStart (animations (startPressAnimation (Some e) r) ! length (animations r)) =
         (pageX e - (scrollX r + val (left el)) - of_int (initialSize el) / 2,
          pageY e - (scrollY r + val (top_px el)) - of_int (initialSize el) / 2)"
  using startPressAnimation_started(1,2,9) [OF assms, where event = "Some e"]
    startPressAnimation_keyframes(2) [OF assms, of e]
  by simp

lemma in_set_remove_nth:
  assumes "x \<in> set xs" "i < length xs \<Longrightarrow> xs ! i \<noteq> x"
  shows "x \<in> set (take i xs @ drop (Suc i) xs)"
proof (cases "i < length xs")
  case True
  have "set (take i xs @ xs ! i # drop (Suc i) xs) = set xs"
    using id_take_nth_drop [OF True] by simp
  then have "set xs = set (take i xs) \<union> {xs ! i} \<union> set (drop (Suc i) xs)"
    by simp
  moreover from assms(2) True have "x \<noteq> xs ! i" by blast
  ultimately show ?thesis using assms(1) by auto
next
  case False
  with assms(1) show ?thesis by simp
qed

lemma touch_delay_ok_step: "touch_delay_ok s \<Longrightarrow> touch_delay_ok (step i s)"
proof (cases i)
  case (Timeout k)
  assume ok: "touch_delay_ok s"
  show ?thesis
  proof (cases "k < length (timers s) \<and> fst (timers s ! k) \<le> now s")
    case False
    with ok Timeout show ?thesis by (auto simp: fire_def)
  next
    case True
    show ?thesis
    proof (cases "snd (timers s ! k)")
      case (TouchDelayResume ev)
      with True Timeout ok show ?thesis
        by (simp add: fire_def resume_def touchDelayResume_def touch_delay_ok_def)
    next
      case (MinimumPressResume a)
      let ?s' = "s\<lparr>timers := take k (timers s) @ drop (Suc k) (timers s)\<rparr>"
      have st: "step i s = minimumPressResume a ?s'"
        using True Timeout MinimumPressResume by (simp add: fire_def resume_def)
      have "touch_delay_ok ?s'"
        unfolding touch_delay_ok_def
      proof
        assume "stateRef ?s' = TOUCH_DELAY"
        with ok obtain e due where e: "rippleStartEventRef s = Some e" "pointerType e = ''touch''"
          and t: "(due, TouchDelayResume e) \<in> set (timers s)"
          by (auto simp: touch_delay_ok_def)
        from t have "(due, TouchDelayResume e) \<in> set (take k (timers s) @ drop (Suc k) (timers s))"
          using MinimumPressResume by (intro in_set_remove_nth) auto
        with e show "\<exists>e due. rippleStartEventRef ?s' = Some e \<and> pointerType e = ''touch''
            \<and> (due, TouchDelayResume e) \<in> set (timers ?s')"
          by auto
      qed
      then show ?thesis
        unfolding st by (simp add: minimumPressResume_def touch_delay_ok_def)
    qed
  qed
next
  case (PointerEnter e)
  assume "touch_delay_ok s"
  with PointerEnter show ?thesis
    by (simp add: onPointerEnter_def touch_delay_ok_def)
next
  case (PointerLeave e)
  assume "touch_delay_ok s"
  with PointerLeave show ?thesis
    by (simp add: onPointerLeave_def touch_delay_ok_def Let_def)
next
  case (PointerDown e)
  assume "touch_delay_ok s"
  with PointerDown show ?thesis
    by (simp add: onPointerDown_def touch_delay_ok_def Let_def isTouch_def setTimeout_def
        ex_disj_distrib)
next
  case (PointerUp e)
  assume "touch_delay_ok s"
  with PointerUp show ?thesis
    by (simp add: onPointerUp_def touch_delay_ok_def)
next
  case (PointerCancel e)
  assume "touch_delay_ok s"
  with PointerCancel show ?thesis
    by (simp add: onPointerCancel_def touch_delay_ok_def)
next
  case Click
  assume "touch_delay_ok s"
  with Click show ?thesis
    by (simp add: onClick_def touch_delay_ok_def)
next
  case (Attach el)
  assume "touch_delay_ok s"
  with Attach show ?thesis by (simp add: touch_delay_ok_def)
next
  case (Scroll x y)
  assume "touch_delay_ok s"
  with Scroll show ?thesis by (simp add: touch_delay_ok_def)
next
  case (Elapse dt)
  assume "touch_delay_ok s"
  with Elapse show ?thesis by (simp add: touch_delay_ok_def)
qed

lemma touch_delay_ok_run: "touch_delay_ok s \<Longrightarrow> touch_delay_ok (run ins s)"
  by (induction ins arbitrary: s) (simp_all add: touch_delay_ok_step)

text \<open>
  Claim C5, as the code has it. An admissible touch \<open>pointerdown\<close> puts the phase in
  \<open>TOUCH_DELAY\<close>, stores the event and schedules a 150 ms delay; whenever the phase is
  \<open>TOUCH_DELAY\<close>, after any sequence of inputs, a touch event is stored and its delay is
  pending. In every state whose phase is \<open>TOUCH_DELAY\<close>, an admissible \<open>pointerup\<close> sets
  the phase to \<open>WAITING_FOR_CLICK\<close> and calls \<open>startPressAnimation\<close> with the stored
  event; and when a touch delay fires in such a state, the phase becomes \<open>HOLDING\<close> and
  \<open>startPressAnimation\<close> is called with the event of the \<open>pointerdown\<close> that scheduled
  it. In a browser with the surface attached either call starts the grow animation at that
  moment, its start translation being the coordinates of that \<open>pointerdown\<close> event
  relative to the surface less half the initial size, and sets \<open>pressed\<close>; otherwise
  only the phase changes. The same is stated for the release and for the delay \<open>dt\<close>
  after the \<open>pointerdown\<close> itself.
\<close>

theorem touch_delay_release:
  assumes "pointerType e = ''touch''" "shouldReactToEvent e s" "0 \<le> dt"
  shows "onPointerDown e s =
           s\<lparr>rippleStartEventRef := Some e, stateRef := TOUCH_DELAY,
             timers := timers s @ [(now s + 150, TouchDelayResume e)]\<rparr>
     \<and> (stateRef (run ins (useRipple d b)) = TOUCH_DELAY \<longrightarrow>
           (\<exists>e1 due1. rippleStartEventRef (run ins (useRipple d b)) = Some e1
              \<and> pointerType e1 = ''touch''
              \<and> (due1, TouchDelayResume e1) \<in> set (timers (run ins (useRipple d b)))))
     \<and> (stateRef r = TOUCH_DELAY \<and> rippleStartEventRef r = Some ev
           \<and> shouldReactToEvent u r \<longrightarrow>
           onPointerUp u r = startPressAnimation (Some ev) (r\<lparr>stateRef := WAITING_FOR_CLICK\<rparr>)
           \<and> stateRef (onPointerUp u r) = WAITING_FOR_CLICK
           \<and> (isBrowser r \<and> surfaceRef r = Some el \<longrightarrow>
                pressed (onPointerUp u r)
                \<and> growAnimationRef (onPointerUp u r) = Some (length (animations r))
                \<and> startTime (animations (onPointerUp u r) ! length (animations r)) = now r
                \<and> translateStart (animations (onPointerUp u r) ! length (animations r)) =
                    (pageX ev - (scrollX r + val (left el)) - of_int (initialSize el) / 2,
                     pageY ev - (scrollY r + val (top_px el)) - of_int (initialSize el) / 2))
           \<and> (\<not> isBrowser r \<or> surfaceRef r = None \<longrightarrow>
                onPointerUp u r = r\<lparr>stateRef := WAITING_FOR_CLICK\<rparr>))
     \<and> (stateRef r = TOUCH_DELAY \<and> k < length (timers r)
           \<and> timers r ! k = (due, TouchDelayResume ev) \<and> due \<le> now r \<longrightarrow>
           step (Timeout k) r =
             startPressAnimation (Some ev)
               (r\<lparr>timers := take k (timers r) @ drop (Suc k) (timers r), stateRef := HOLDING\<rparr>)
           \<and> stateRef (step (Timeout k) r) = HOLDING
           \<and> (isBrowser r \<and> surfaceRef r = Some el \<longrightarrow>
                pressed (step (Timeout k) r)
                \<and> growAnimationRef (step (Timeout k) r) = Some (length (animations r))
                \<and> startTime (animations (step (Timeout k) r) ! length (animations r)) = now r
                \<and> translateStart (animations (step (Timeout k) r) ! length (animations r)) =
                    (pageX ev - (scrollX r + val (left el)) - of_int (initialSize el) / 2,
                     pageY ev - (scrollY r + val (top_px el)) - of_int (initialSize el) / 2))
           \<and> (\<not> isBrowser r \<or> surfaceRef r = None \<longrightarrow>
                pressed (step (Timeout k) r) = pressed r
                \<and> animations (step (Timeout k) r) = animations r))
     \<and> (shouldReactToEvent u (step (Elapse dt) (onPointerDown e s)) \<longrightarrow>
           onPointerUp u (step (Elapse dt) (onPointerDown e s)) =
             startPressAnimation (Some e)
               ((step (Elapse dt) (onPointerDown e s))\<lparr>stateRef := WAITING_FOR_CLICK\<rparr>)
           \<and> stateRef (onPointerUp u (step (Elapse dt) (onPointerDown e s))) = WAITING_FOR_CLICK
           \<and> (isBrowser s \<and> surfaceRef s = Some el \<longrightarrow>
                pressed (onPointerUp u (step (Elapse dt) (onPointerDown e s)))
                \<and> growAnimationRef (onPointerUp u (step (Elapse dt) (onPointerDown e s)))
                    = Some (length (animations s))
                \<and> startTime (animations (onPointerUp u (step (Elapse dt) (onPointerDown e s)))
                      ! length (animations s)) = now s + dt
                \<and> translateStart (animations (onPointerUp u (step (Elapse dt) (onPointerDown e s)))
                      ! length (animations s)) =
                    (pageX e - (scrollX s + val (left el)) - of_int (initialSize el) / 2,
                     pageY e - (scrollY s + val (top_px el)) - of_int (initialSize el) / 2))
           \<and> (\<not> isBrowser s \<or> surfaceRef s = None \<longrightarrow>
                pressed (onPointerUp u (step (Elapse dt) (onPointerDown e s))) = pressed s
                \<and> animations (onPointerUp u (step (Elapse dt) (onPointerDown e s)))
                    = animations s))
     \<and> (150 \<le> dt \<longrightarrow>
           stateRef (step (Timeout (length (timers s))) (step (Elapse dt) (onPointerDown e s)))
             = HOLDING
           \<and> (isBrowser s \<and> surfaceRef s = Some el \<longrightarrow>
                pressed (step (Timeout (length (timers s)))
                   (step (Elapse dt) (onPointerDown e s)))
                \<and> growAnimationRef (step (Timeout (length (timers s)))
                     (step (Elapse dt) (onPointerDown e s))) = Some (length (animations s))
                \<and> startTime (animations (step (Timeout (length (timers s)))
                     (step (Elapse dt) (onPointerDown e s))) ! length (animations s))
                    = now s + dt
                \<and> translateStart (animations (step (Timeout (length (timers s)))
                     (step (Elapse dt) (onPointerDown e s))) ! length (animations s)) =
                    (pageX e - (scrollX s + val (left el)) - of_int (initialSize el) / 2,
                     pageY e - (scrollY s + val (top_px el)) - of_int (initialSize el) / 2))
           \<and> (\<not> isBrowser s \<or> surfaceRef s = None \<longrightarrow>
                pressed (step (Timeout (length (timers s)))
                   (step (Elapse dt) (onPointerDown e s))) = pressed s
                \<and> animations (step (Timeout (length (timers s)))
                     (step (Elapse dt) (onPointerDown e s))) = animations s))"
proof -
  let ?d = "s\<lparr>rippleStartEventRef := Some e, stateRef := TOUCH_DELAY,
             timers := timers s @ [(now s + 150, TouchDelayResume e)]\<rparr>"
  have d: "onPointerDown e s = ?d" by (rule touch_pointerdown [OF assms(1,2)])
  have "touch_delay_ok (useRipple d b)"
    by (simp add: touch_delay_ok_def useRipple_def)
  then have "touch_delay_ok (run ins (useRipple d b))"
    by (rule touch_delay_ok_run)
  then have inv: "stateRef (run ins (useRipple d b)) = TOUCH_DELAY \<longrightarrow>
           (\<exists>e1 due1. rippleStartEventRef (run ins (useRipple d b)) = Some e1
              \<and> pointerType e1 = ''touch''
              \<and> (due1, TouchDelayResume e1) \<in> set (timers (run ins (useRipple d b))))"
    by (simp add: touch_delay_ok_def)
  have release: "onPointerUp u' r' = startPressAnimation (Some e') (r'\<lparr>stateRef := WAITING_FOR_CLICK\<rparr>)
      \<and> stateRef (onPointerUp u' r') = WAITING_FOR_CLICK
      \<and> (isBrowser r' \<and> surfaceRef r' = Some el \<longrightarrow>
           pressed (onPointerUp u' r')
           \<and> growAnimationRef (onPointerUp u' r') = Some (length (animations r'))
           \<and> startTime (animations (onPointerUp u' r') ! length (animations r')) = now r'
           \<and> translateStart (animations (onPointerUp u' r') ! length (animations r')) =
               (pageX e' - (scrollX r' + val (left el)) - of_int (initialSize el) / 2,
                pageY e' - (scrollY r' + val (top_px el)) - of_int (initialSize el) / 2))
      \<and> (\<not> isBrowser r' \<or> surfaceRef r' = None \<longrightarrow>
           onPointerUp u' r' = r'\<lparr>stateRef := WAITING_FOR_CLICK\<rparr>)"
    if "stateRef r' = TOUCH_DELAY" "rippleStartEventRef r' = Some e'" "shouldReactToEvent u' r'"
    for u' r' e'
  proof -
    let ?w = "r'\<lparr>stateRef := WAITING_FOR_CLICK\<rparr>"
    have up: "onPointerUp u' r' = startPressAnimation (Some e') ?w"
      by (rule touch_release [OF that])
    have played: "pressed (startPressAnimation (Some e') ?w)
       \<and> growAnimationRef (startPressAnimation (Some e') ?w) = Some (length (animations r'))
       \<and> startTime (animations (startPressAnimation (Some e') ?w) ! length (animations r')) = now r'
       \<and> translateStart (animations (startPressAnimation (Some e') ?w) ! length (animations r')) =
           (pageX e' - (scrollX r' + val (left el)) - of_int (initialSize el) / 2,
            pageY e' - (scrollY r' + val (top_px el)) - of_int (initialSize el) / 2)"
      if "isBrowser r' \<and> surfaceRef r' = Some el"
      using press_from_event [of ?w el e'] that by simp
    have skipped: "startPressAnimation (Some e') ?w = ?w"
      if "\<not> isBrowser r' \<or> surfaceRef r' = None"
      using that by (intro startPressAnimation_skipped) simp
    show ?thesis
      unfolding up using played skipped by simp
  qed
  have hold: "step (Timeout k') r' =
        startPressAnimation (Some e')
          (r'\<lparr>timers := take k' (timers r') @ drop (Suc k') (timers r'), stateRef := HOLDING\<rparr>)
      \<and> stateRef (step (Timeout k') r') = HOLDING
      \<and> (isBrowser r' \<and> surfaceRef r' = Some el \<longrightarrow>
           pressed (step (Timeout k') r')
           \<and> growAnimationRef (step (Timeout k') r') = Some (length (animations r'))
           \<and> startTime (animations (step (Timeout k') r') ! length (animations r')) = now r'
           \<and> translateStart (animations (step (Timeout k') r') ! length (animations r')) =
               (pageX e' - (scrollX r' + val (left el)) - of_int (initialSize el) / 2,
                pageY e' - (scrollY r' + val (top_px el)) - of_int (initialSize el) / 2))
      \<and> (\<not> isBrowser r' \<or> surfaceRef r' = None \<longrightarrow>
           pressed (step (Timeout k') r') = pressed r'
           \<and> animations (step (Timeout k') r') = animations r')"
    if "stateRef r' = TOUCH_DELAY" "k' < length (timers r')"
      "timers r' ! k' = (due', TouchDelayResume e')" "due' \<le> now r'"
    for k' r' e' due'
  proof -
    let ?h = "r'\<lparr>timers := take k' (timers r') @ drop (Suc k') (timers r'),
                stateRef := HOLDING\<rparr>"
    have fires: "step (Timeout k') r' = startPressAnimation (Some e') ?h"
      by (rule touch_delay_fires [OF that])
    have held: "pressed (startPressAnimation (Some e') ?h)
       \<and> growAnimationRef (startPressAnimation (Some e') ?h) = Some (length (animations r'))
       \<and> startTime (animations (startPressAnimation (Some e') ?h) ! length (animations r')) = now r'
       \<and> translateStart (animations (startPressAnimation (Some e') ?h) ! length (animations r')) =
           (pageX e' - (scrollX r' + val (left el)) - of_int (initialSize el) / 2,
            pageY e' - (scrollY r' + val (top_px el)) - of_int (initialSize el) / 2)"
      if "isBrowser r' \<and> surfaceRef r' = Some el"
      using press_from_event [of ?h el e'] that by simp
    have unheld: "startPressAnimation (Some e') ?h = ?h"
      if "\<not> isBrowser r' \<or> surfaceRef r' = None"
      using that by (intro startPressAnimation_skipped) simp
    show ?thesis
      unfolding fires using held unheld by simp
  qed
  from release [of r ev u]
  have rel: "stateRef r = TOUCH_DELAY \<and> rippleStartEventRef r = Some ev
           \<and> shouldReactToEvent u r \<longrightarrow>
           onPointerUp u r = startPressAnimation (Some ev) (r\<lparr>stateRef := WAITING_FOR_CLICK\<rparr>)
           \<and> stateRef (onPointerUp u r) = WAITING_FOR_CLICK
           \<and> (isBrowser r \<and> surfaceRef r = Some el \<longrightarrow>
                pressed (onPointerUp u r)
                \<and> growAnimationRef (onPointerUp u r) = Some (length (animations r))
                \<and> startTime (animations (onPointerUp u r) ! length (animations r)) = now r
                \<and> translateStart (animations (onPointerUp u r) ! length (animations r)) =
                    (pageX ev - (scrollX r + val (left el)) - of_int (initialSize el) / 2,
                     pageY ev - (scrollY r + val (top_px el)) - of_int (initialSize el) / 2))
           \<and> (\<not> isBrowser r \<or> surfaceRef r = None \<longrightarrow>
                onPointerUp u r = r\<lparr>stateRef := WAITING_FOR_CLICK\<rparr>)"
    by blast
  from hold [of r k due ev]
  have hld: "stateRef r = TOUCH_DELAY \<and> k < length (timers r)
           \<and> timers r ! k = (due, TouchDelayResume ev) \<and> due \<le> now r \<longrightarrow>
           step (Timeout k) r =
             startPressAnimation (Some ev)
               (r\<lparr>timers := take k (timers r) @ drop (Suc k) (timers r), stateRef := HOLDING\<rparr>)
           \<and> stateRef (step (Timeout k) r) = HOLDING
           \<and> (isBrowser r \<and> surfaceRef r = Some el \<longrightarrow>
                pressed (step (Timeout k) r)
                \<and> growAnimationRef (step (Timeout k) r) = Some (length (animations r))
                \<and> startTime (animations (step (Timeout k) r) ! length (animations r)) = now r
                \<and> translateStart (animations (step (Timeout k) r) ! length (animations r)) =
                    (pageX ev - (scrollX r + val (left el)) - of_int (initialSize el) / 2,
                     pageY ev - (scrollY r + val (top_px el)) - of_int (initialSize el) / 2))
           \<and> (\<not> isBrowser r \<or> surfaceRef r = None \<longrightarrow>
                pressed (step (Timeout k) r) = pressed r
                \<and> animations (step (Timeout k) r) = animations r)"
    by blast
  let ?t = "?d\<lparr>now := now s + dt\<rparr>"
  have t: "step (Elapse dt) (onPointerDown e s) = ?t"
    unfolding d using assms(3) by simp
  have tf: "stateRef ?t = TOUCH_DELAY" "rippleStartEventRef ?t = Some e"
    "isBrowser ?t = isBrowser s" "surfaceRef ?t = surfaceRef s" "animations ?t = animations s"
    "now ?t = now s + dt" "scrollX ?t = scrollX s" "scrollY ?t = scrollY s"
    "pressed ?t = pressed s"
    "length (timers s) < length (timers ?t)"
    "timers ?t ! length (timers s) = (now s + 150, TouchDelayResume e)"
    by simp_all
  have rel_dt: "shouldReactToEvent u (step (Elapse dt) (onPointerDown e s)) \<longrightarrow>
           onPointerUp u (step (Elapse dt) (onPointerDown e s)) =
             startPressAnimation (Some e)
               ((step (Elapse dt) (onPointerDown e s))\<lparr>stateRef := WAITING_FOR_CLICK\<rparr>)
           \<and> stateRef (onPointerUp u (step (Elapse dt) (onPointerDown e s))) = WAITING_FOR_CLICK
           \<and> (isBrowser s \<and> surfaceRef s = Some el \<longrightarrow>
                pressed (onPointerUp u (step (Elapse dt) (onPointerDown e s)))
                \<and> growAnimationRef (onPointerUp u (step (Elapse dt) (onPointerDown e s)))
                    = Some (length (animations s))
                \<and> startTime (animations (onPointerUp u (step (Elapse dt) (onPointerDown e s)))
                      ! length (animations s)) = now s + dt
                \<and> translateStart (animations (onPointerUp u (step (Elapse dt) (onPointerDown e s)))
                      ! length (animations s)) =
                    (pageX e - (scrollX s + val (left el)) - of_int (initialSize el) / 2,
                     pageY e - (scrollY s + val (top_px el)) - of_int (initialSize el) / 2))
           \<and> (\<not> isBrowser s \<or> surfaceRef s = None \<longrightarrow>
                pressed (onPointerUp u (step (Elapse dt) (onPointerDown e s))) = pressed s
                \<and> animations (onPointerUp u (step (Elapse dt) (onPointerDown e s)))
                    = animations s)"
    unfolding t
  proof
    assume "shouldReactToEvent u ?t"
    from release [OF tf(1,2) this] show "onPointerUp u ?t =
             startPressAnimation (Some e) (?t\<lparr>stateRef := WAITING_FOR_CLICK\<rparr>)
           \<and> stateRef (onPointerUp u ?t) = WAITING_FOR_CLICK
           \<and> (isBrowser s \<and> surfaceRef s = Some el \<longrightarrow>
                pressed (onPointerUp u ?t)
                \<and> growAnimationRef (onPointerUp u ?t) = Some (length (animations s))
                \<and> startTime (animations (onPointerUp u ?t) ! length (animations s)) = now s + dt
                \<and> translateStart (animations (onPointerUp u ?t) ! length (animations s)) =
                    (pageX e - (scrollX s + val (left el)) - of_int (initialSize el) / 2,
                     pageY e - (scrollY s + val (top_px el)) - of_int (initialSize el) / 2))
           \<and> (\<not> isBrowser s \<or> surfaceRef s = None \<longrightarrow>
                pressed (onPointerUp u ?t) = pressed s
                \<and> animations (onPointerUp u ?t) = animations s)"
      unfolding tf by auto
  qed
  have hld_dt: "150 \<le> dt \<longrightarrow>
           stateRef (step (Timeout (length (timers s))) (step (Elapse dt) (onPointerDown e s)))
             = HOLDING
           \<and> (isBrowser s \<and> surfaceRef s = Some el \<longrightarrow>
                pressed (step (Timeout (length (timers s)))
                   (step (Elapse dt) (onPointerDown e s)))
                \<and> growAnimationRef (step (Timeout (length (timers s)))
                     (step (Elapse dt) (onPointerDown e s))) = Some (length (animations s))
                \<and> startTime (animations (step (Timeout (length (timers s)))
                     (step (Elapse dt) (onPointerDown e s))) ! length (animations s))
                    = now s + dt
                \<and> translateStart (animations (step (Timeout (length (timers s)))
                     (step (Elapse dt) (onPointerDown e s))) ! length (animations s)) =
                    (pageX e - (scrollX s + val (left el)) - of_int (initialSize el) / 2,
                     pageY e - (scrollY s + val (top_px el)) - of_int (initialSize el) / 2))
           \<and> (\<not> isBrowser s \<or> surfaceRef s = None \<longrightarrow>
                pressed (step (Timeout (length (timers s)))
                   (step (Elapse dt) (onPointerDown e s))) = pressed s
                \<and> animations (step (Timeout (length (timers s)))
                     (step (Elapse dt) (onPointerDown e s))) = animations s)"
    unfolding t
  proof
    assume "150 \<le> dt"
    then have due: "now s + 150 \<le> now ?t" by simp
    from hold [OF tf(1,10,11) due]
    show "stateRef (step (Timeout (length (timers s))) ?t) = HOLDING
           \<and> (isBrowser s \<and> surfaceRef s = Some el \<longrightarrow>
                pressed (step (Timeout (length (timers s))) ?t)
                \<and> growAnimationRef (step (Timeout (length (timers s))) ?t)
                    = Some (length (animations s))
                \<and> startTime (animations (step (Timeout (length (timers s))) ?t)
                      ! length (animations s)) = now s + dt
                \<and> translateStart (animations (step (Timeout (length (timers s))) ?t)
                      ! length (animations s)) =
                    (pageX e - (scrollX s + val (left el)) - of_int (initialSize el) / 2,
                     pageY e - (scrollY s + val (top_px el)) - of_int (initialSize el) / 2))
           \<and> (\<not> isBrowser s \<or> surfaceRef s = None \<longrightarrow>
                pressed (step (Timeout (length (timers s))) ?t) = pressed s
                \<and> animations (step (Timeout (length (timers s))) ?t) = animations s)"
      unfolding tf by blast
  qed
  show ?thesis
    by (intro conjI d inv rel hld rel_dt hld_dt)
qed

theorem touch_delay_release_witness:
  "pointerType (touch_event ''pointerdown'') = ''touch''
   \<and> shouldReactToEvent (touch_event ''pointerdown'') mounted
   \<and> isBrowser mounted \<and> surfaceRef mounted = Some example_surface
   \<and> shouldReactToEvent (touch_event ''pointerup'')
        (step (Elapse 100) (onPointerDown (touch_event ''pointerdown'') mounted))
   \<and> stateRef (onPointerUp (touch_event ''pointerup'')
        (step (Elapse 100) (onPointerDown (touch_event ''pointerdown'') mounted)))
       = WAITING_FOR_CLICK
   \<and> pressed (onPointerUp (touch_event ''pointerup'')
        (step (Elapse 100) (onPointerDown (touch_event ''pointerdown'') mounted)))
   \<and> startTime (animations (onPointerUp (touch_event ''pointerup'')
        (step (Elapse 100) (onPointerDown (touch_event ''pointerdown'') mounted))) ! 0) = 100
   \<and> translateStart (animations (onPointerUp (touch_event ''pointerup'')
        (step (Elapse 100) (onPointerDown (touch_event ''pointerdown'') mounted))) ! 0)
       = (10, 20)
   \<and> stateRef (step (Timeout 0) (step (Elapse 150)
        (onPointerDown (touch_event ''pointerdown'') mounted))) = HOLDING
   \<and> pressed (step (Timeout 0) (step (Elapse 150)
        (onPointerDown (touch_event ''pointerdown'') mounted)))
   \<and> startTime (animations (step (Timeout 0) (step (Elapse 150)
        (onPointerDown (touch_event ''pointerdown'') mounted))) ! 0) = 150
   \<and> translateStart (animations (step (Timeout 0) (step (Elapse 150)
        (onPointerDown (touch_event ''pointerdown'') mounted))) ! 0) = (10, 20)
   \<and> stateRef (run touch_scrolled (useRipple False True)) = TOUCH_DELAY
   \<and> rippleStartEventRef (run touch_scrolled (useRipple False True))
       = Some (touch_event ''pointerdown'')
   \<and> timers (run touch_scrolled (useRipple False True))
       = [(150, TouchDelayResume (touch_event ''pointerdown''))]
   \<and> now (run touch_scrolled (useRipple False True)) = 150
   \<and> shouldReactToEvent (touch_event ''pointerup'') (run touch_scrolled (useRipple False True))
   \<and> isBrowser (run touch_scrolled (useRipple False True))
   \<and> surfaceRef (run touch_scrolled (useRipple False True)) = Some example_surface
   \<and> stateRef (onPointerUp (touch_event ''pointerup'')
        (run touch_scrolled (useRipple False True))) = WAITING_FOR_CLICK
   \<and> pressed (onPointerUp (touch_event ''pointerup'')
        (run touch_scrolled (useRipple False True)))
   \<and> translateStart (animations (onPointerUp (touch_event ''pointerup'')
        (run touch_scrolled (useRipple False True))) ! 0) = (7, 16)
   \<and> stateRef (step (Timeout 0) (run touch_scrolled (useRipple False True))) = HOLDING
   \<and> pressed (step (Timeout 0) (run touch_scrolled (useRipple False True)))
   \<and> translateStart (animations (step (Timeout 0)
        (run touch_scrolled (useRipple False True))) ! 0) = (7, 16)
   \<and> shouldReactToEvent (touch_event ''pointerdown'') (useRipple False True)
   \<and> surfaceRef (useRipple False True) = None
   \<and> shouldReactToEvent (touch_event ''pointerup'')
        (step (Elapse 150) (onPointerDown (touch_event ''pointerdown'') (useRipple False True)))
   \<and> \<not> pressed (onPointerUp (touch_event ''pointerup'')
        (step (Elapse 150) (onPointerDown (touch_event ''pointerdown'') (useRipple False True))))
   \<and> \<not> pressed (step (Timeout 0) (step (Elapse 150)
        (onPointerDown (touch_event ''pointerdown'') (useRipple False True))))"
proof -
  let ?E = "touch_event ''pointerdown''"
  let ?U = "touch_event ''pointerup''"
  let ?R = "run touch_scrolled (useRipple False True)"
  have e: "pointerType ?E = ''touch''"
    by (simp add: touch_event_def)
  have z: "(0::real) \<le> 100" "(0::real) \<le> 150" "(150::real) \<le> 150"
    by simp_all
  have m: "isBrowser mounted" "surfaceRef mounted = Some example_surface"
    "animations mounted = []" "timers mounted = []" "now mounted = 0"
    "scrollX mounted = 0" "scrollY mounted = 0"
    by (simp_all add: mounted_def useRipple_def)
  have rm: "shouldReactToEvent ?E mounted"
    by (simp add: ripple_defs)
  have um: "shouldReactToEvent ?U (step (Elapse 100) (onPointerDown ?E mounted))"
    by (simp add: ripple_defs)
  have R: "stateRef ?R = TOUCH_DELAY" "rippleStartEventRef ?R = Some ?E"
    "timers ?R = [(150, TouchDelayResume ?E)]" "now ?R = 150"
    "shouldReactToEvent ?U ?R" "isBrowser ?R" "surfaceRef ?R = Some example_surface"
    "animations ?R = []" "scrollX ?R = 3" "scrollY ?R = 4"
    by (simp_all add: ripple_defs)
  have Rt: "0 < length (timers ?R)" "timers ?R ! 0 = (150, TouchDelayResume ?E)" "150 \<le> now ?R"
    by (simp_all add: R)
  have i0: "surfaceRef (useRipple False True) = None" "timers (useRipple False True) = []"
    "\<not> pressed (useRipple False True)"
    by (simp_all add: useRipple_def)
  have r0: "shouldReactToEvent ?E (useRipple False True)"
    by (simp add: ripple_defs)
  have u0: "shouldReactToEvent ?U (step (Elapse 150) (onPointerDown ?E (useRipple False True)))"
    by (simp add: ripple_defs)
  have v: "pageX ?E = 28" "pageY ?E = 46"
    "val (left example_surface) = 8" "val (top_px example_surface) = 16"
    "initialSize example_surface = 20"
    by (simp_all add: touch_event_def example_surface_def val_examples)
  from touch_delay_release [OF e rm z(1), where u = ?U and el = example_surface and r = ?R
      and ev = ?E and k = 0 and due = 150 and ins = touch_scrolled and d = False and b = True]
    um m(1,2) R(1,2,5,6,7) Rt
  have "stateRef (onPointerUp ?U (step (Elapse 100) (onPointerDown ?E mounted)))
       = WAITING_FOR_CLICK
     \<and> pressed (onPointerUp ?U (step (Elapse 100) (onPointerDown ?E mounted)))
     \<and> startTime (animations (onPointerUp ?U (step (Elapse 100) (onPointerDown ?E mounted)))
         ! length (animations mounted)) = now mounted + 100
     \<and> translateStart (animations (onPointerUp ?U (step (Elapse 100) (onPointerDown ?E mounted)))
         ! length (animations mounted)) =
        (pageX ?E - (scrollX mounted + val (left example_surface))
           - of_int (initialSize example_surface) / 2,
         pageY ?E - (scrollY mounted + val (top_px example_surface))
           - of_int (initialSize example_surface) / 2)
     \<and> stateRef (onPointerUp ?U ?R) = WAITING_FOR_CLICK
     \<and> pressed (onPointerUp ?U ?R)
     \<and> translateStart (animations (onPointerUp ?U ?R) ! length (animations ?R)) =
        (pageX ?E - (scrollX ?R + val (left example_surface))
           - of_int (initialSize example_surface) / 2,
         pageY ?E - (scrollY ?R + val (top_px example_surface))
           - of_int (initialSize example_surface) / 2)
     \<and> stateRef (step (Timeout 0) ?R) = HOLDING
     \<and> pressed (step (Timeout 0) ?R)
     \<and> translateStart (animations (step (Timeout 0) ?R) ! length (animations ?R)) =
        (pageX ?E - (scrollX ?R + val (left example_surface))
           - of_int (initialSize example_surface) / 2,
         pageY ?E - (scrollY ?R + val (top_px example_surface))
           - of_int (initialSize example_surface) / 2)"
    by blast
  then have released: "stateRef (onPointerUp ?U (step (Elapse 100) (onPointerDown ?E mounted)))
       = WAITING_FOR_CLICK
     \<and> pressed (onPointerUp ?U (step (Elapse 100) (onPointerDown ?E mounted)))
     \<and> startTime (animations (onPointerUp ?U (step (Elapse 100) (onPointerDown ?E mounted)))
         ! 0) = 100
     \<and> translateStart (animations (onPointerUp ?U (step (Elapse 100) (onPointerDown ?E mounted)))
         ! 0) = (10, 20)
     \<and> stateRef (onPointerUp ?U ?R) = WAITING_FOR_CLICK
     \<and> pressed (onPointerUp ?U ?R)
     \<and> translateStart (animations (onPointerUp ?U ?R) ! 0) = (7, 16)
     \<and> stateRef (step (Timeout 0) ?R) = HOLDING
     \<and> pressed (step (Timeout 0) ?R)
     \<and> translateStart (animations (step (Timeout 0) ?R) ! 0) = (7, 16)"
    unfolding m R v by (simp del: step.simps run.simps)
  from touch_delay_release [OF e rm z(2), where el = example_surface] z(3) m(1,2)
  have "stateRef (step (Timeout (length (timers mounted)))
         (step (Elapse 150) (onPointerDown ?E mounted))) = HOLDING
     \<and> pressed (step (Timeout (length (timers mounted)))
         (step (Elapse 150) (onPointerDown ?E mounted)))
     \<and> startTime (animations (step (Timeout (length (timers mounted)))
         (step (Elapse 150) (onPointerDown ?E mounted))) ! length (animations mounted))
        = now mounted + 150
     \<and> translateStart (animations (step (Timeout (length (timers mounted)))
         (step (Elapse 150) (onPointerDown ?E mounted))) ! length (animations mounted)) =
        (pageX ?E - (scrollX mounted + val (left example_surface))
           - of_int (initialSize example_surface) / 2,
         pageY ?E - (scrollY mounted + val (top_px example_surface))
           - of_int (initialSize example_surface) / 2)"
    by blast
  then have held: "stateRef (step (Timeout 0) (step (Elapse 150) (onPointerDown ?E mounted)))
       = HOLDING
     \<and> pressed (step (Timeout 0) (step (Elapse 150) (onPointerDown ?E mounted)))
     \<and> startTime (animations (step (Timeout 0) (step (Elapse 150) (onPointerDown ?E mounted)))
         ! 0) = 150
     \<and> translateStart (animations (step (Timeout 0)
         (step (Elapse 150) (onPointerDown ?E mounted))) ! 0) = (10, 20)"
    unfolding m v by (simp del: step.simps)
  from touch_delay_release [OF e r0 z(2), where u = ?U] z(3) u0 i0(1)
  have "pressed (onPointerUp ?U (step (Elapse 150) (onPointerDown ?E (useRipple False True))))
        = pressed (useRipple False True)
     \<and> pressed (step (Timeout (length (timers (useRipple False True))))
         (step (Elapse 150) (onPointerDown ?E (useRipple False True))))
        = pressed (useRipple False True)"
    by blast
  then have detached:
    "\<not> pressed (onPointerUp ?U (step (Elapse 150) (onPointerDown ?E (useRipple False True))))
     \<and> \<not> pressed (step (Timeout 0)
         (step (Elapse 150) (onPointerDown ?E (useRipple False True))))"
    using i0(2,3) by (simp del: step.simps)
  from released held detached e rm m(1,2) um R(1-7) r0 i0(1) u0 show ?thesis
    by blast
qed

text \<open>
  Claim C5 as stated fails when no surface is attached: after a touch \<open>pointerdown\<close> and
  \<open>pointerup\<close>, or after the touch delay, the phase has moved on but no animation exists
  and \<open>pressed\<close> is false.
\<close>

theorem touch_delay_release_counterexample:
  "stateRef (run touch_tap (useRipple False True)) = WAITING_FOR_CLICK
   \<and> \<not> pressed (run touch_tap (useRipple False True))
   \<and> animations (run touch_tap (useRipple False True)) = []
   \<and> growAnimationRef (run touch_tap (useRipple False True)) = None
   \<and> stateRef (run touch_hold (useRipple False True)) = HOLDING
   \<and> \<not> pressed (run touch_hold (useRipple False True))
   \<and> animations (run touch_hold (useRipple False True)) = []"
  by (simp add: ripple_defs)

subsection \<open>Click without a press\<close>

text \<open>
  Claim C6, as the code has it. \<open>onClick\<close> on an enabled controller whose phase is
  \<open>INACTIVE\<close>, in a browser with the surface attached: \<open>pressed\<close> is true, one new grow
  animation exists, started now, whose start translation is the centre of the surface
  (the same as its end translation), the phase is \<open>INACTIVE\<close> with no origin event, and
  one minimum-press wait of 225 ms is pending for the new handle; when that wait fires,
  \<open>pressed\<close> is false. Without a browser or a surface, \<open>onClick\<close> is just
  \<open>endPressAnimation\<close>: no animation is made and \<open>pressed\<close> does not become true.
\<close>

theorem synthetic_click:
  assumes "\<not> disabled s" "stateRef s = INACTIVE"
  shows "(isBrowser s \<and> surfaceRef s = Some el \<longrightarrow>
       pressed (onClick ev s)
       \<and> stateRef (onClick ev s) = INACTIVE
       \<and> rippleStartEventRef (onClick ev s) = None
       \<and> growAnimationRef (onClick ev s) = Some (length (animations s))
       \<and> length (animations (onClick ev s)) = Suc (length (animations s))
       \<and> startTime (animations (onClick ev s) ! length (animations s)) = now s
       \<and> translateStart (animations (onClick ev s) ! length (animations s)) =
           (val (width el) / 2 - of_int (initialSize el) / 2,
            val (height el) / 2 - of_int (initialSize el) / 2)
       \<and> translateEnd (animations (onClick ev s) ! length (animations s)) =
           translateStart (animations (onClick ev s) ! length (animations s))
       \<and> timers (onClick ev s) =
           timers s @ [(now s + 225, MinimumPressResume (Some (length (animations s))))]
       \<and> (225 \<le> dt \<longrightarrow>
            \<not> pressed (step (Timeout (length (timers s))) (step (Elapse dt) (onClick ev s)))
            \<and> stateRef (step (Timeout (length (timers s))) (step (Elapse dt) (onClick ev s)))
                = INACTIVE
            \<and> timers (step (Timeout (length (timers s))) (step (Elapse dt) (onClick ev s)))
                = timers s))
   \<and> (\<not> isBrowser s \<or> surfaceRef s = None \<longrightarrow>
        onClick ev s = endPressAnimation s
        \<and> animations (onClick ev s) = animations s
        \<and> (pressed (onClick ev s) \<longrightarrow> pressed s))"
proof (intro conjI impI)
  assume "\<not> isBrowser s \<or> surfaceRef s = None"
  with assms show "onClick ev s = endPressAnimation s"
    by (simp add: onClick_def startPressAnimation_skipped)
  then show "animations (onClick ev s) = animations s" by simp
  assume "pressed (onClick ev s)"
  with \<open>onClick ev s = endPressAnimation s\<close> show "pressed s"
    by (auto simp: endPressAnimation_cases split: option.splits if_splits)
next
  assume "isBrowser s \<and> surfaceRef s = Some el"
  then have g: "isBrowser s" "surfaceRef s = Some el" by simp_all
  let ?p = "startPressAnimation None s"
  note st = startPressAnimation_started [OF g, where event = None]
  note kf = startPressAnimation_keyframes(1) [OF g]
    startPressAnimation_keyframes(3) [OF g, where event = None]
  have c: "onClick ev s =
      ?p\<lparr>rippleStartEventRef := None, stateRef := INACTIVE,
         timers := timers s @ [(now s + 225, MinimumPressResume (Some (length (animations s))))]\<rparr>"
    using assms fresh_press_currentTime [OF g, where event = None] st
    by (simp add: onClick_def endPressAnimation_cases MINIMUM_PRESS_MS_def)
  show "pressed (onClick ev s)" "stateRef (onClick ev s) = INACTIVE"
    "rippleStartEventRef (onClick ev s) = None"
    "growAnimationRef (onClick ev s) = Some (length (animations s))"
    "length (animations (onClick ev s)) = Suc (length (animations s))"
    "startTime (animations (onClick ev s) ! length (animations s)) = now s"
    "timers (onClick ev s) =
       timers s @ [(now s + 225, MinimumPressResume (Some (length (animations s))))]"
    using st by (simp_all add: c)
  show "translateStart (animations (onClick ev s) ! length (animations s)) =
           (val (width el) / 2 - of_int (initialSize el) / 2,
            val (height el) / 2 - of_int (initialSize el) / 2)"
    using kf by (simp add: c)
  show "translateEnd (animations (onClick ev s) ! length (animations s)) =
           translateStart (animations (onClick ev s) ! length (animations s))"
    using kf by (simp add: c diff_divide_distrib)
  assume "225 \<le> dt"
  then have f: "step (Timeout (length (timers s))) (step (Elapse dt) (onClick ev s)) =
      ?p\<lparr>rippleStartEventRef := None, stateRef := INACTIVE, now := now s + dt,
         timers := timers s, pressed := False\<rparr>"
    using st by (simp add: c fire_def resume_def minimumPressResume_def)
  show "\<not> pressed (step (Timeout (length (timers s))) (step (Elapse dt) (onClick ev s)))"
    "stateRef (step (Timeout (length (timers s))) (step (Elapse dt) (onClick ev s))) = INACTIVE"
    "timers (step (Timeout (length (timers s))) (step (Elapse dt) (onClick ev s))) = timers s"
    unfolding f by simp_all
qed

theorem synthetic_click_witness:
  "\<not> disabled mounted \<and> stateRef mounted = INACTIVE
   \<and> isBrowser mounted \<and> surfaceRef mounted = Some example_surface
   \<and> pressed (onClick () mounted)
   \<and> stateRef (onClick () mounted) = INACTIVE
   \<and> translateStart (animations (onClick () mounted) ! 0) = (40, 10)
   \<and> translateEnd (animations (onClick () mounted) ! 0) = (40, 10)
   \<and> timers (onClick () mounted) = [(225, MinimumPressResume (Some 0))]
   \<and> \<not> pressed (step (Timeout 0) (step (Elapse 225) (onClick () mounted)))
   \<and> \<not> disabled (useRipple False True) \<and> stateRef (useRipple False True) = INACTIVE
   \<and> surfaceRef (useRipple False True) = None
   \<and> onClick () (useRipple False True) = endPressAnimation (useRipple False True)
   \<and> \<not> pressed (onClick () (useRipple False True))"
proof -
  have i0: "\<not> disabled (useRipple False True)" "stateRef (useRipple False True) = INACTIVE"
    "surfaceRef (useRipple False True) = None" "\<not> pressed (useRipple False True)"
    by (simp_all add: useRipple_def)
  have m: "\<not> disabled mounted" "stateRef mounted = INACTIVE"
    "isBrowser mounted" "surfaceRef mounted = Some example_surface"
    "animations mounted = []" "timers mounted = []" "now mounted = 0"
    by (simp_all add: mounted_def useRipple_def)
  have v: "val (width example_surface) = 100" "val (height example_surface) = 40"
    "initialSize example_surface = 20"
    by (simp_all add: example_surface_def val_examples)
  from synthetic_click [OF m(1,2), where el = example_surface and ev = "()" and dt = 225] m v
  have attached: "pressed (onClick () mounted)
     \<and> stateRef (onClick () mounted) = INACTIVE
     \<and> translateStart (animations (onClick () mounted) ! 0) = (40, 10)
     \<and> translateEnd (animations (onClick () mounted) ! 0) = (40, 10)
     \<and> timers (onClick () mounted) = [(225, MinimumPressResume (Some 0))]
     \<and> \<not> pressed (step (Timeout 0) (step (Elapse 225) (onClick () mounted)))"
    by simp
  from synthetic_click [OF i0(1,2), where ev = "()"] i0
  have detached: "onClick () (useRipple False True) = endPressAnimation (useRipple False True)
     \<and> \<not> pressed (onClick () (useRipple False True))"
    by blast
  from attached detached m(1-4) i0(1-3) show ?thesis by blast
qed

text \<open>
  Claim C6 as stated fails when no surface is attached: the click on the initial state
  leaves the state as it is, so \<open>pressed\<close> never becomes true.
\<close>

theorem synthetic_click_counterexample:
  "\<not> disabled (useRipple False True) \<and> stateRef (useRipple False True) = INACTIVE
   \<and> onClick () (useRipple False True) = useRipple False True
   \<and> \<not> pressed (onClick () (useRipple False True))
   \<and> animations (onClick () (useRipple False True)) = []
   \<and> timers (onClick () (useRipple False True)) = []"
  by (simp add: ripple_defs)

end
